theory Spec2Isabelle
  imports Complex_Main "HOL-Library.Word"
begin

unbundle bit_operations_syntax

section \<open>FileIO: the platform file-system layer of the build tool\<close>

text \<open>
  The development embeds \<^verbatim>\<open>Code/Core/FileIO/FileIO.cpp\<close>. Every function of that file
  is compiled in one of three variants, selected by the preprocessor symbols
  \<^verbatim>\<open>__WINDOWS__\<close>, \<^verbatim>\<open>__LINUX__\<close> and \<^verbatim>\<open>__APPLE__\<close>; the embedding takes the platform as
  a value and keeps every variant as a branch.
\<close>

subsection \<open>Build configuration and the parts of Core that FileIO.cpp only uses\<close>

datatype platform = Windows | Linux | Apple

text \<open>
  \<^verbatim>\<open>PathUtils\<close> (with \<^verbatim>\<open>NATIVE_SLASH\<close>) and the \<^verbatim>\<open>ASSERT\<close>/\<^verbatim>\<open>VERIFY\<close> macros are
  declared in headers that FileIO.cpp includes; their code is not part of the
  file. They are parameters of the embedding: \<open>asserts_enabled\<close> says whether
  a failed \<^verbatim>\<open>ASSERT\<close> or \<^verbatim>\<open>VERIFY\<close> stops the program (a debug build) or is
  compiled to nothing.
\<close>

record build =
  platform :: platform
  asserts_enabled :: bool
  NATIVE_SLASH :: char
  EnsureTrailingSlash :: "string \<Rightarrow> string"
  FixupFolderPath :: "string \<Rightarrow> string"
  IsWildcardMatch :: "string \<Rightarrow> string \<Rightarrow> bool"

text \<open>The ways a call can end without returning a value.\<close>

datatype failure =
    AssertFailed        \<comment> \<open>an enabled \<^verbatim>\<open>ASSERT\<close> or \<^verbatim>\<open>VERIFY\<close> failed\<close>
  | BufferOverrun       \<comment> \<open>a pointer is moved past the string's terminator\<close>

subsection \<open>Operating-system data\<close>

type_synonym DWORD = "32 word"
type_synonym uint64_t = "64 word"

text \<open>Constants of \<^verbatim>\<open><windows.h>\<close>, \<^verbatim>\<open><sys/stat.h>\<close> and \<^verbatim>\<open><dirent.h>\<close>.\<close>

definition FILE_ATTRIBUTE_READONLY :: DWORD where
  "FILE_ATTRIBUTE_READONLY = 0x1"

definition FILE_ATTRIBUTE_DIRECTORY :: DWORD where
  "FILE_ATTRIBUTE_DIRECTORY = 0x10"

definition FILE_ATTRIBUTE_NORMAL :: DWORD where
  "FILE_ATTRIBUTE_NORMAL = 0x80"

definition S_IFMT :: "32 word" where
  "S_IFMT = 0xF000"

definition S_IFDIR :: "32 word" where
  "S_IFDIR = 0x4000"

definition S_IFREG :: "32 word" where
  "S_IFREG = 0x8000"

definition S_IRWXU :: "32 word" where
  "S_IRWXU = 0x1C0"

definition S_IRWXG :: "32 word" where
  "S_IRWXG = 0x38"

definition S_IRWXO :: "32 word" where
  "S_IRWXO = 0x7"

definition DT_DIR :: "8 word" where
  "DT_DIR = 4"

definition DT_REG :: "8 word" where
  "DT_REG = 8"

definition DT_LNK :: "8 word" where
  "DT_LNK = 10"

definition DT_SOCK :: "8 word" where
  "DT_SOCK = 12"

record FILETIME =
  dwLowDateTime :: DWORD
  dwHighDateTime :: DWORD

record WIN32_FILE_ATTRIBUTE_DATA =
  dwFileAttributes :: DWORD
  ftLastWriteTime :: FILETIME
  nFileSizeHigh :: DWORD
  nFileSizeLow :: DWORD

record WIN32_FIND_DATA = WIN32_FILE_ATTRIBUTE_DATA +
  cFileName :: string

record timespec =
  tv_sec :: uint64_t
  tv_nsec :: uint64_t

text \<open>\<^verbatim>\<open>struct stat\<close>; macOS names the field \<^verbatim>\<open>st_mtimespec\<close>, Linux \<^verbatim>\<open>st_mtim\<close>.\<close>

record stat =
  st_mode :: "32 word"
  st_size :: uint64_t
  st_mtim :: timespec

record dirent =
  d_name :: string
  d_type :: "8 word"

text \<open>
  A character of a NUL-terminated C string: index \<open>length s\<close> holds the terminator.
  The code reads index \<open>i + 1\<close> only after it saw a character other than NUL at
  index \<open>i\<close>, so no read of the model goes past the terminator.
\<close>

definition c_at :: "string \<Rightarrow> nat \<Rightarrow> char" where
  "c_at s i = (if i < length s then s ! i else CHR 0x00)"

text \<open>\<^verbatim>\<open>(uint64_t)low | ( (uint64_t)high << 32 )\<close>\<close>

definition join64 :: "DWORD \<Rightarrow> DWORD \<Rightarrow> uint64_t" where
  "join64 low high = (ucast low) OR (push_bit 32 (ucast high))"

text \<open>\<^verbatim>\<open>( (uint64_t)tv_sec * 1000000000ULL ) + (uint64_t)tv_nsec\<close>, in 64-bit arithmetic.\<close>

definition nanoseconds :: "timespec \<Rightarrow> uint64_t" where
  "nanoseconds t = tv_sec t * 1000000000 + tv_nsec t"

subsection \<open>FileIO::FileInfo\<close>

record FileInfo =
  m_Name :: string
  m_Attributes :: "32 word"
  m_LastWriteTime :: uint64_t
  m_Size :: uint64_t

subsection \<open>Directory enumeration\<close>

text \<open>
  What the operating system enumerates. An entry carries what \<^verbatim>\<open>readdir\<close> reports
  of it (\<open>posix_entry\<close>), the outcome of \<^verbatim>\<open>stat( pathCopy.Get(), &info )\<close> on its full
  path (\<open>posix_stat\<close>), what \<^verbatim>\<open>FindFirstFileEx\<close>/\<^verbatim>\<open>FindNextFile\<close> report of it
  (\<open>find_data\<close>), and
  \<open>listing\<close>: what opening the entry as a directory gives, \<open>None\<close> when it cannot
  be opened (\<^verbatim>\<open>opendir\<close> returns \<^verbatim>\<open>nullptr\<close>, \<^verbatim>\<open>FindFirstFileEx\<close> returns
  \<^verbatim>\<open>INVALID_HANDLE_VALUE\<close>). The entries of a listing come in the order in which the
  system reports them, and a listing holds the \<^verbatim>\<open>.\<close> and \<^verbatim>\<open>..\<close> entries if the
  system reports them. The tree is finite: a directory is not its own descendant.
  \<^verbatim>\<open>FindFirstFileEx\<close> also returns \<^verbatim>\<open>INVALID_HANDLE_VALUE\<close> when it finds no entry, so
  on Windows an empty listing is taken like \<open>None\<close>.

  The outcome of \<^verbatim>\<open>stat\<close> is a pair: whether the call returned \<^verbatim>\<open>0\<close>, and what the
  variable \<^verbatim>\<open>info\<close> holds after the call. When the call fails (as on a dangling
  symbolic link) it fills nothing, and the second component is what the variable,
  which the code does not initialise, held before: any value.
\<close>

datatype entry =
  Entry (posix_entry: dirent) (posix_stat: "bool \<times> stat")
        (find_data: WIN32_FIND_DATA) (listing: "entry list option")

text \<open>
  \<^verbatim>\<open>GetFilesRecurse\<close>. \<open>pathCopy\<close> is the caller's buffer, passed by reference: the
  function returns its final content with the results. \<open>dir\<close> is what the system
  gives when the directory named by \<open>pathCopy\<close> is opened. On Windows the directory
  is enumerated twice, first for the sub-directories (\<open>win_dirs_loop\<close>) and then
  for the files (\<open>win_files_loop\<close>); elsewhere once (\<open>posix_loop\<close>).
  \<^verbatim>\<open>pathCopy.SetLength( baseLength )\<close> followed by \<^verbatim>\<open>+=\<close> is \<open>take baseLength pathCopy @ _\<close>.
\<close>

fun win_files_loop ::
    "build \<Rightarrow> nat \<Rightarrow> string \<Rightarrow> entry list \<Rightarrow> string \<Rightarrow> string list \<Rightarrow> string \<times> string list"
where
  "win_files_loop b baseLength wildCard [] pathCopy results = (pathCopy, results)"
| "win_files_loop b baseLength wildCard (e # es) pathCopy results =
     (if dwFileAttributes (find_data e) AND FILE_ATTRIBUTE_DIRECTORY \<noteq> 0 then
        win_files_loop b baseLength wildCard es pathCopy results
      else if IsWildcardMatch b wildCard (cFileName (find_data e)) then
        (let pathCopy' = take baseLength pathCopy @ cFileName (find_data e)
         in win_files_loop b baseLength wildCard es pathCopy' (results @ [pathCopy']))
      else win_files_loop b baseLength wildCard es pathCopy results)"

lemma size_listing: "Suc (size_option (size_list size) (listing e)) \<le> size e + n"
  by (cases e) simp

function GetFilesRecurse ::
    "build \<Rightarrow> string \<Rightarrow> string \<Rightarrow> entry list option \<Rightarrow> string list \<Rightarrow> string \<times> string list"
  and win_dirs_loop ::
    "build \<Rightarrow> nat \<Rightarrow> string \<Rightarrow> entry list \<Rightarrow> string \<Rightarrow> string list \<Rightarrow> string \<times> string list"
  and posix_loop ::
    "build \<Rightarrow> nat \<Rightarrow> string \<Rightarrow> entry list \<Rightarrow> string \<Rightarrow> string list \<Rightarrow> string \<times> string list"
where
  "GetFilesRecurse b pathCopy wildCard dir results =
     (if platform b = Windows then
        (case dir of
           None \<Rightarrow> (pathCopy @ ''*'', results)
         | Some [] \<Rightarrow> (pathCopy @ ''*'', results)
         | Some (e # es) \<Rightarrow>
             (let (pathCopy', results') =
                    win_dirs_loop b (length pathCopy) wildCard (e # es) (pathCopy @ ''*'') results
              in win_files_loop b (length pathCopy) wildCard (e # es)
                   (take (length pathCopy) pathCopy' @ ''*'') results'))
      else
        (case dir of
           None \<Rightarrow> (pathCopy, results)
         | Some es \<Rightarrow> posix_loop b (length pathCopy) wildCard es pathCopy results))"
| "win_dirs_loop b baseLength wildCard [] pathCopy results = (pathCopy, results)"
| "win_dirs_loop b baseLength wildCard (e # es) pathCopy results =
     (if dwFileAttributes (find_data e) AND FILE_ATTRIBUTE_DIRECTORY \<noteq> 0 then
        (if c_at (cFileName (find_data e)) 0 = CHR ''.'' \<and>
            (c_at (cFileName (find_data e)) 1 = CHR ''.'' \<or> c_at (cFileName (find_data e)) 1 = CHR 0x00)
         then win_dirs_loop b baseLength wildCard es pathCopy results
         else
           (let (pathCopy', results') =
                  GetFilesRecurse b (take baseLength pathCopy @ cFileName (find_data e) @ [NATIVE_SLASH b])
                    wildCard (listing e) results
            in win_dirs_loop b baseLength wildCard es pathCopy' results'))
      else win_dirs_loop b baseLength wildCard es pathCopy results)"
| "posix_loop b baseLength wildCard [] pathCopy results = (pathCopy, results)"
| "posix_loop b baseLength wildCard (e # es) pathCopy results =
     (if d_type (posix_entry e) AND DT_DIR = DT_DIR then
        (if c_at (d_name (posix_entry e)) 0 = CHR ''.'' \<and>
            (c_at (d_name (posix_entry e)) 1 = CHR 0x00 \<or>
             (c_at (d_name (posix_entry e)) 1 = CHR ''.'' \<and> c_at (d_name (posix_entry e)) 2 = CHR 0x00))
         then posix_loop b baseLength wildCard es pathCopy results
         else
           (let (pathCopy', results') =
                  GetFilesRecurse b (take baseLength pathCopy @ d_name (posix_entry e) @ [NATIVE_SLASH b])
                    wildCard (listing e) results
            in posix_loop b baseLength wildCard es pathCopy' results'))
      else if IsWildcardMatch b wildCard (d_name (posix_entry e)) then
        (let pathCopy' = take baseLength pathCopy @ d_name (posix_entry e)
         in posix_loop b baseLength wildCard es pathCopy' (results @ [pathCopy']))
      else posix_loop b baseLength wildCard es pathCopy results)"
  by pat_completeness auto
termination
  by (relation "measure (\<lambda>x. case x of
          Inl (b, p, w, d, r) \<Rightarrow> Suc (size_option (size_list size) d)
        | Inr (Inl (b, n, w, es, p, r)) \<Rightarrow> size_list size es
        | Inr (Inr (b, n, w, es, p, r)) \<Rightarrow> size_list size es)")
     (auto simp: less_Suc_eq_le size_listing)

declare GetFilesRecurse.simps [simp del]

fun posix_files_loop ::
    "build \<Rightarrow> nat \<Rightarrow> string \<Rightarrow> entry list \<Rightarrow> string \<Rightarrow> string list \<Rightarrow> string \<times> string list"
where
  "posix_files_loop b baseLength wildCard [] pathCopy results = (pathCopy, results)"
| "posix_files_loop b baseLength wildCard (e # es) pathCopy results =
     (if d_type (posix_entry e) AND DT_DIR = DT_DIR then
        posix_files_loop b baseLength wildCard es pathCopy results
      else if IsWildcardMatch b wildCard (d_name (posix_entry e)) then
        (let pathCopy' = take baseLength pathCopy @ d_name (posix_entry e)
         in posix_files_loop b baseLength wildCard es pathCopy' (results @ [pathCopy']))
      else posix_files_loop b baseLength wildCard es pathCopy results)"

text \<open>
  \<^verbatim>\<open>GetFilesNoRecurse\<close> works on a buffer of its own, and \<^verbatim>\<open>GetFiles\<close> compares the
  size of the array before and after. \<^verbatim>\<open>ASSERT( results )\<close> holds in the embedding,
  where the array is always there; the array is a list, and \<^verbatim>\<open>size_t\<close> sizes are
  natural numbers.
\<close>

definition GetFilesNoRecurse ::
    "build \<Rightarrow> string \<Rightarrow> string \<Rightarrow> entry list option \<Rightarrow> string list \<Rightarrow> string list"
where
  "GetFilesNoRecurse b path wildCard dir results =
     (let pathCopy = EnsureTrailingSlash b path;
          baseLength = length pathCopy
      in if platform b = Windows then
           (case dir of
              None \<Rightarrow> results
            | Some [] \<Rightarrow> results
            | Some (e # es) \<Rightarrow>
                snd (win_files_loop b baseLength wildCard (e # es) (pathCopy @ ''*'') results))
         else
           (case dir of
              None \<Rightarrow> results
            | Some es \<Rightarrow> snd (posix_files_loop b baseLength wildCard es pathCopy results)))"

definition GetFiles ::
    "build \<Rightarrow> string \<Rightarrow> string \<Rightarrow> bool \<Rightarrow> entry list option \<Rightarrow> string list \<Rightarrow> bool \<times> string list"
where
  "GetFiles b path wildCard recurse dir results =
     (let oldSize = length results;
          results' =
            (if recurse
             then snd (GetFilesRecurse b (EnsureTrailingSlash b path) wildCard dir results)
             else GetFilesNoRecurse b path wildCard dir results)
      in (length results' \<noteq> oldSize, results'))"

text \<open>
  \<^verbatim>\<open>GetFilesEx\<close> and its helpers. The element that \<^verbatim>\<open>SetSize( GetSize() + 1 )\<close> adds
  and the assignments through \<^verbatim>\<open>Top()\<close> fill is the record appended here; growing
  the capacity does not change the elements. On Linux and macOS the attributes come
  from \<^verbatim>\<open>VERIFY( stat( pathCopy.Get(), &info ) == 0 )\<close>: when \<^verbatim>\<open>stat\<close> fails, a build
  with assertions stops there; a build without goes on and fills the new element
  from what \<^verbatim>\<open>info\<close> holds.
\<close>

definition win_FileInfo :: "string \<Rightarrow> WIN32_FIND_DATA \<Rightarrow> FileInfo" where
  "win_FileInfo pathCopy findData =
     \<lparr> m_Name = pathCopy,
       m_Attributes = dwFileAttributes findData,
       m_LastWriteTime = join64 (dwLowDateTime (ftLastWriteTime findData))
                                (dwHighDateTime (ftLastWriteTime findData)),
       m_Size = join64 (nFileSizeLow findData) (nFileSizeHigh findData) \<rparr>"

definition posix_FileInfo :: "build \<Rightarrow> string \<Rightarrow> bool \<times> stat \<Rightarrow> failure + FileInfo" where
  "posix_FileInfo b pathCopy st =
     (let (ok, info) = st
      in if asserts_enabled b \<and> \<not> ok then Inl AssertFailed
         else
           Inr \<lparr> m_Name = pathCopy,
                 m_Attributes = st_mode info,
                 m_LastWriteTime = (if platform b = Apple then 0 else nanoseconds (st_mtim info)),
                 m_Size = st_size info \<rparr>)"

fun win_files_loop_ex ::
    "build \<Rightarrow> nat \<Rightarrow> string \<Rightarrow> entry list \<Rightarrow> string \<Rightarrow> FileInfo list \<Rightarrow> string \<times> FileInfo list"
where
  "win_files_loop_ex b baseLength wildCard [] pathCopy results = (pathCopy, results)"
| "win_files_loop_ex b baseLength wildCard (e # es) pathCopy results =
     (if dwFileAttributes (find_data e) AND FILE_ATTRIBUTE_DIRECTORY \<noteq> 0 then
        win_files_loop_ex b baseLength wildCard es pathCopy results
      else if IsWildcardMatch b wildCard (cFileName (find_data e)) then
        (let pathCopy' = take baseLength pathCopy @ cFileName (find_data e)
         in win_files_loop_ex b baseLength wildCard es pathCopy'
              (results @ [win_FileInfo pathCopy' (find_data e)]))
      else win_files_loop_ex b baseLength wildCard es pathCopy results)"

fun posix_files_loop_ex ::
    "build \<Rightarrow> nat \<Rightarrow> string \<Rightarrow> entry list \<Rightarrow> string \<Rightarrow> FileInfo list
       \<Rightarrow> failure + string \<times> FileInfo list"
where
  "posix_files_loop_ex b baseLength wildCard [] pathCopy results = Inr (pathCopy, results)"
| "posix_files_loop_ex b baseLength wildCard (e # es) pathCopy results =
     (if d_type (posix_entry e) AND DT_DIR = DT_DIR then
        posix_files_loop_ex b baseLength wildCard es pathCopy results
      else if IsWildcardMatch b wildCard (d_name (posix_entry e)) then
        (let pathCopy' = take baseLength pathCopy @ d_name (posix_entry e)
         in case posix_FileInfo b pathCopy' (posix_stat e) of
              Inl f \<Rightarrow> Inl f
            | Inr newInfo \<Rightarrow>
                posix_files_loop_ex b baseLength wildCard es pathCopy' (results @ [newInfo]))
      else posix_files_loop_ex b baseLength wildCard es pathCopy results)"

function GetFilesRecurseEx ::
    "build \<Rightarrow> string \<Rightarrow> string \<Rightarrow> entry list option \<Rightarrow> FileInfo list
       \<Rightarrow> failure + string \<times> FileInfo list"
  and win_dirs_loop_ex ::
    "build \<Rightarrow> nat \<Rightarrow> string \<Rightarrow> entry list \<Rightarrow> string \<Rightarrow> FileInfo list
       \<Rightarrow> failure + string \<times> FileInfo list"
  and posix_loop_ex ::
    "build \<Rightarrow> nat \<Rightarrow> string \<Rightarrow> entry list \<Rightarrow> string \<Rightarrow> FileInfo list
       \<Rightarrow> failure + string \<times> FileInfo list"
where
  "GetFilesRecurseEx b pathCopy wildCard dir results =
     (if platform b = Windows then
        (case dir of
           None \<Rightarrow> Inr (pathCopy @ ''*'', results)
         | Some [] \<Rightarrow> Inr (pathCopy @ ''*'', results)
         | Some (e # es) \<Rightarrow>
             (case win_dirs_loop_ex b (length pathCopy) wildCard (e # es) (pathCopy @ ''*'') results of
                Inl f \<Rightarrow> Inl f
              | Inr (pathCopy', results') \<Rightarrow>
                  Inr (win_files_loop_ex b (length pathCopy) wildCard (e # es)
                         (take (length pathCopy) pathCopy' @ ''*'') results')))
      else
        (case dir of
           None \<Rightarrow> Inr (pathCopy, results)
         | Some es \<Rightarrow> posix_loop_ex b (length pathCopy) wildCard es pathCopy results))"
| "win_dirs_loop_ex b baseLength wildCard [] pathCopy results = Inr (pathCopy, results)"
| "win_dirs_loop_ex b baseLength wildCard (e # es) pathCopy results =
     (if dwFileAttributes (find_data e) AND FILE_ATTRIBUTE_DIRECTORY \<noteq> 0 then
        (if c_at (cFileName (find_data e)) 0 = CHR ''.'' \<and>
            (c_at (cFileName (find_data e)) 1 = CHR ''.'' \<or> c_at (cFileName (find_data e)) 1 = CHR 0x00)
         then win_dirs_loop_ex b baseLength wildCard es pathCopy results
         else
           (case GetFilesRecurseEx b
                   (take baseLength pathCopy @ cFileName (find_data e) @ [NATIVE_SLASH b])
                   wildCard (listing e) results of
              Inl f \<Rightarrow> Inl f
            | Inr (pathCopy', results') \<Rightarrow> win_dirs_loop_ex b baseLength wildCard es pathCopy' results'))
      else win_dirs_loop_ex b baseLength wildCard es pathCopy results)"
| "posix_loop_ex b baseLength wildCard [] pathCopy results = Inr (pathCopy, results)"
| "posix_loop_ex b baseLength wildCard (e # es) pathCopy results =
     (if d_type (posix_entry e) AND DT_DIR = DT_DIR then
        (if c_at (d_name (posix_entry e)) 0 = CHR ''.'' \<and>
            (c_at (d_name (posix_entry e)) 1 = CHR 0x00 \<or>
             (c_at (d_name (posix_entry e)) 1 = CHR ''.'' \<and> c_at (d_name (posix_entry e)) 2 = CHR 0x00))
         then posix_loop_ex b baseLength wildCard es pathCopy results
         else
           (case GetFilesRecurseEx b
                   (take baseLength pathCopy @ d_name (posix_entry e) @ [NATIVE_SLASH b])
                   wildCard (listing e) results of
              Inl f \<Rightarrow> Inl f
            | Inr (pathCopy', results') \<Rightarrow> posix_loop_ex b baseLength wildCard es pathCopy' results'))
      else if IsWildcardMatch b wildCard (d_name (posix_entry e)) then
        (let pathCopy' = take baseLength pathCopy @ d_name (posix_entry e)
         in case posix_FileInfo b pathCopy' (posix_stat e) of
              Inl f \<Rightarrow> Inl f
            | Inr newInfo \<Rightarrow> posix_loop_ex b baseLength wildCard es pathCopy' (results @ [newInfo]))
      else posix_loop_ex b baseLength wildCard es pathCopy results)"
  by pat_completeness auto
termination
  by (relation "measure (\<lambda>x. case x of
          Inl (b, p, w, d, r) \<Rightarrow> Suc (size_option (size_list size) d)
        | Inr (Inl (b, n, w, es, p, r)) \<Rightarrow> size_list size es
        | Inr (Inr (b, n, w, es, p, r)) \<Rightarrow> size_list size es)")
     (auto simp: less_Suc_eq_le size_listing)

declare GetFilesRecurseEx.simps [simp del]

definition GetFilesNoRecurseEx ::
    "build \<Rightarrow> string \<Rightarrow> string \<Rightarrow> entry list option \<Rightarrow> FileInfo list \<Rightarrow> failure + FileInfo list"
where
  "GetFilesNoRecurseEx b path wildCard dir results =
     (let pathCopy = EnsureTrailingSlash b path;
          baseLength = length pathCopy
      in if platform b = Windows then
           (case dir of
              None \<Rightarrow> Inr results
            | Some [] \<Rightarrow> Inr results
            | Some (e # es) \<Rightarrow>
                Inr (snd (win_files_loop_ex b baseLength wildCard (e # es) (pathCopy @ ''*'') results)))
         else
           (case dir of
              None \<Rightarrow> Inr results
            | Some es \<Rightarrow> map_sum id snd (posix_files_loop_ex b baseLength wildCard es pathCopy results)))"

definition GetFilesEx ::
    "build \<Rightarrow> string \<Rightarrow> string \<Rightarrow> bool \<Rightarrow> entry list option \<Rightarrow> FileInfo list
       \<Rightarrow> failure + bool \<times> FileInfo list"
where
  "GetFilesEx b path wildCard recurse dir results =
     (let oldSize = length results in
      case (if recurse
            then map_sum id snd (GetFilesRecurseEx b (EnsureTrailingSlash b path) wildCard dir results)
            else GetFilesNoRecurseEx b path wildCard dir results) of
        Inl f \<Rightarrow> Inl f
      | Inr results' \<Rightarrow> Inr (length results' \<noteq> oldSize, results'))"

text \<open>
  Whether \<^verbatim>\<open>stat\<close> succeeds on every entry of a listing and of the listings below it.
\<close>

fun stats_succeed :: "entry \<Rightarrow> bool" where
  "stats_succeed (Entry d st f l) =
     (fst st \<and> (case l of None \<Rightarrow> True | Some es \<Rightarrow> list_all stats_succeed es))"

definition every_stat_succeeds :: "entry list option \<Rightarrow> bool" where
  "every_stat_succeeds dir = (case dir of None \<Rightarrow> True | Some es \<Rightarrow> list_all stats_succeed es)"

subsection \<open>The file-system namespace and the system calls\<close>

text \<open>
  The functions other than the enumeration are embedded over a state of the
  operating system that they pass along:
  \<^item> \<open>nodes\<close> maps the resolved path of every file and directory (the list of its
    components from the root) to what the system reports of it: \<open>i_stat\<close> is what
    \<^verbatim>\<open>stat\<close> fills in, \<open>i_data\<close> what \<^verbatim>\<open>GetFileAttributesEx\<close> fills in. The root
    directory always exists;
  \<^item> \<open>denied\<close> holds the calls that the system refuses although the file system
    would allow them (permissions, a full disk): such a call fails with
    \<^verbatim>\<open>EACCES\<close> or \<^verbatim>\<open>ERROR_ACCESS_DENIED\<close>;
  \<^item> \<open>umask_value\<close> is the file-mode creation mask of the process;
  \<^item> \<open>temp_path\<close> is what \<^verbatim>\<open>GetTempPath\<close> returns (empty when it fails) and
    \<open>temp_file\<close> the file name that \<^verbatim>\<open>GetTempFileName\<close> chooses in a directory for
    a prefix;
  \<^item> \<open>calls\<close> records every system call made, in order.

  A path is resolved from the root, the current directory, component by component:
  \<^verbatim>\<open>.\<close> stays, \<^verbatim>\<open>..\<close> goes to the parent, and every component but the last must be
  a directory. A separator at the end of a path stands for a final \<^verbatim>\<open>.\<close>, except in
  the path of a directory to create. The separator is \<^verbatim>\<open>/\<close>, and on Windows also the
  backslash. Symbolic links, drives and the times and sizes of new nodes are not
  modelled.
\<close>

datatype errno = ENOENT | ENOTDIR | EEXIST | EACCES

datatype win_error =
    ERROR_FILE_NOT_FOUND | ERROR_PATH_NOT_FOUND | ERROR_ACCESS_DENIED
  | ERROR_FILE_EXISTS | ERROR_ALREADY_EXISTS

datatype syscall =
    Posix_stat string
  | Posix_umask "32 word"
  | Posix_mkdir string "32 word"
  | GetFileAttributes string
  | GetFileAttributesEx string
  | SetFileAttributes string DWORD
  | CopyFile string string bool
  | CreateDirectory string
  | GetTempPath
  | GetTempFileName string string
  | CreateFile string
  | SetFileTime "string list" FILETIME
  | CloseHandle "string list"

record inode =
  i_stat :: stat
  i_data :: WIN32_FILE_ATTRIBUTE_DATA

record os =
  nodes :: "string list \<rightharpoonup> inode"
  denied :: "syscall \<Rightarrow> bool"
  umask_value :: "32 word"
  temp_path :: string
  temp_file :: "string \<Rightarrow> string \<Rightarrow> string"
  calls :: "syscall list"

definition called :: "syscall \<Rightarrow> os \<Rightarrow> os" where
  "called c s = s\<lparr>calls := calls s @ [c]\<rparr>"


definition is_separator :: "platform \<Rightarrow> char \<Rightarrow> bool" where
  "is_separator pl c = (c = CHR ''/'' \<or> (pl = Windows \<and> c = CHR 0x5C))"

fun components :: "(char \<Rightarrow> bool) \<Rightarrow> string \<Rightarrow> string \<Rightarrow> string list" where
  "components sep cur [] = (if cur = [] then [] else [cur])"
| "components sep cur (c # cs) =
     (if sep c then (if cur = [] then components sep [] cs else cur # components sep [] cs)
      else components sep (cur @ [c]) cs)"

definition path_components :: "platform \<Rightarrow> string \<Rightarrow> string list" where
  "path_components pl p = components (is_separator pl) [] p"

text \<open>A directory as the system creates it, with the given permission bits.\<close>

definition new_directory :: "32 word \<Rightarrow> inode" where
  "new_directory mode =
     \<lparr> i_stat = \<lparr> st_mode = S_IFDIR OR mode, st_size = 0, st_mtim = \<lparr> tv_sec = 0, tv_nsec = 0 \<rparr> \<rparr>,
       i_data = \<lparr> dwFileAttributes = FILE_ATTRIBUTE_DIRECTORY,
                  ftLastWriteTime = \<lparr> dwLowDateTime = 0, dwHighDateTime = 0 \<rparr>,
                  nFileSizeHigh = 0, nFileSizeLow = 0 \<rparr> \<rparr>"

definition node_at :: "(string list \<rightharpoonup> inode) \<Rightarrow> string list \<Rightarrow> inode option" where
  "node_at ns k = (if k = [] then Some (new_directory 0x1ED) else ns k)"

definition is_directory :: "platform \<Rightarrow> inode \<Rightarrow> bool" where
  "is_directory pl i =
     (if pl = Windows then dwFileAttributes (i_data i) AND FILE_ATTRIBUTE_DIRECTORY \<noteq> 0
      else st_mode (i_stat i) AND S_IFMT = S_IFDIR)"

fun walk :: "platform \<Rightarrow> (string list \<rightharpoonup> inode) \<Rightarrow> string list \<Rightarrow> string list \<Rightarrow> errno + string list" where
  "walk pl ns cur [] = Inr cur"
| "walk pl ns cur (c # cs) =
     (case node_at ns cur of
        None \<Rightarrow> Inl ENOENT
      | Some i \<Rightarrow>
          if \<not> is_directory pl i then Inl ENOTDIR
          else if c = ''.'' then walk pl ns cur cs
          else if c = ''..'' then walk pl ns (butlast cur) cs
          else walk pl ns (cur @ [c]) cs)"

text \<open>
  \<open>resolve\<close> is the resolution of a path that names an existing node, \<open>resolve_new\<close>
  the one of the path of a node to create, \<open>lookup\<close> the node a path names.
\<close>

definition resolve_new :: "platform \<Rightarrow> (string list \<rightharpoonup> inode) \<Rightarrow> string \<Rightarrow> errno + string list" where
  "resolve_new pl ns p = (if p = [] then Inl ENOENT else walk pl ns [] (path_components pl p))"

definition resolve :: "platform \<Rightarrow> (string list \<rightharpoonup> inode) \<Rightarrow> string \<Rightarrow> errno + string list" where
  "resolve pl ns p =
     (if p = [] then Inl ENOENT
      else walk pl ns [] (path_components pl p @ (if is_separator pl (last p) then [''.''] else [])))"

definition lookup :: "platform \<Rightarrow> (string list \<rightharpoonup> inode) \<Rightarrow> string \<Rightarrow> inode option" where
  "lookup pl ns p = (case resolve pl ns p of Inl e \<Rightarrow> None | Inr k \<Rightarrow> node_at ns k)"

text \<open>
  POSIX calls. \<^verbatim>\<open>stat\<close> returns the structure it fills, or \<open>None\<close> where the call
  returns \<^verbatim>\<open>-1\<close>; \<^verbatim>\<open>mkdir\<close> returns \<open>None\<close> where the call returns \<^verbatim>\<open>0\<close>, and
  otherwise the value it leaves in \<^verbatim>\<open>errno\<close>.
\<close>

definition sys_stat :: "platform \<Rightarrow> string \<Rightarrow> os \<Rightarrow> stat option \<times> os" where
  "sys_stat pl p s = (map_option i_stat (lookup pl (nodes s) p), called (Posix_stat p) s)"

definition sys_umask :: "32 word \<Rightarrow> os \<Rightarrow> os" where
  "sys_umask m s = called (Posix_umask m) (s\<lparr>umask_value := m\<rparr>)"

definition sys_mkdir :: "platform \<Rightarrow> string \<Rightarrow> 32 word \<Rightarrow> os \<Rightarrow> errno option \<times> os" where
  "sys_mkdir pl p mode s =
     (let s' = called (Posix_mkdir p mode) s in
      case resolve_new pl (nodes s) p of
        Inl e \<Rightarrow> (Some e, s')
      | Inr k \<Rightarrow>
          if node_at (nodes s) k \<noteq> None then (Some EEXIST, s')
          else if denied s (Posix_mkdir p mode) then (Some EACCES, s')
          else (None, s'\<lparr>nodes := (nodes s)(k \<mapsto> new_directory (mode AND NOT (umask_value s)))\<rparr>))"

text \<open>
  Windows calls. \<^verbatim>\<open>GetFileAttributes\<close> returns the attributes, or \<open>None\<close> where the
  call returns \<^verbatim>\<open>INVALID_FILE_ATTRIBUTES\<close>; a call that fails returns the error that
  \<^verbatim>\<open>GetLastError\<close> reports.
\<close>

definition sys_GetFileAttributes :: "string \<Rightarrow> os \<Rightarrow> DWORD option \<times> os" where
  "sys_GetFileAttributes p s =
     (map_option (\<lambda>i. dwFileAttributes (i_data i)) (lookup Windows (nodes s) p),
      called (GetFileAttributes p) s)"

definition sys_GetFileAttributesEx :: "string \<Rightarrow> os \<Rightarrow> WIN32_FILE_ATTRIBUTE_DATA option \<times> os" where
  "sys_GetFileAttributesEx p s =
     (map_option i_data (lookup Windows (nodes s) p), called (GetFileAttributesEx p) s)"

definition sys_SetFileAttributes :: "string \<Rightarrow> DWORD \<Rightarrow> os \<Rightarrow> bool \<times> os" where
  "sys_SetFileAttributes p a s =
     (let s' = called (SetFileAttributes p a) s in
      case resolve Windows (nodes s) p of
        Inl e \<Rightarrow> (False, s')
      | Inr k \<Rightarrow>
          (case nodes s k of
             None \<Rightarrow> (False, s')
           | Some i \<Rightarrow>
               if denied s (SetFileAttributes p a) then (False, s')
               else (True, s'\<lparr>nodes := (nodes s)(k \<mapsto> i\<lparr>i_data := (i_data i)\<lparr>dwFileAttributes := a\<rparr>\<rparr>)\<rparr>)))"

definition sys_CopyFile :: "string \<Rightarrow> string \<Rightarrow> bool \<Rightarrow> os \<Rightarrow> win_error option \<times> os" where
  "sys_CopyFile src dst failIfExists s =
     (let s' = called (CopyFile src dst failIfExists) s in
      case lookup Windows (nodes s) src of
        None \<Rightarrow> (Some ERROR_FILE_NOT_FOUND, s')
      | Some i \<Rightarrow>
          if is_directory Windows i then (Some ERROR_ACCESS_DENIED, s')
          else
            (case resolve_new Windows (nodes s) dst of
               Inl e \<Rightarrow> (Some ERROR_PATH_NOT_FOUND, s')
             | Inr k \<Rightarrow>
                 (case node_at (nodes s) k of
                    None \<Rightarrow>
                      if denied s (CopyFile src dst failIfExists) then (Some ERROR_ACCESS_DENIED, s')
                      else (None, s'\<lparr>nodes := (nodes s)(k \<mapsto> i)\<rparr>)
                  | Some j \<Rightarrow>
                      if failIfExists then (Some ERROR_FILE_EXISTS, s')
                      else if is_directory Windows j
                              \<or> dwFileAttributes (i_data j) AND FILE_ATTRIBUTE_READONLY \<noteq> 0
                              \<or> denied s (CopyFile src dst failIfExists)
                      then (Some ERROR_ACCESS_DENIED, s')
                      else (None, s'\<lparr>nodes := (nodes s)(k \<mapsto> i)\<rparr>))))"

definition sys_CreateDirectory :: "string \<Rightarrow> os \<Rightarrow> win_error option \<times> os" where
  "sys_CreateDirectory p s =
     (let s' = called (CreateDirectory p) s in
      case resolve_new Windows (nodes s) p of
        Inl e \<Rightarrow> (Some ERROR_PATH_NOT_FOUND, s')
      | Inr k \<Rightarrow>
          if node_at (nodes s) k \<noteq> None then (Some ERROR_ALREADY_EXISTS, s')
          else if denied s (CreateDirectory p) then (Some ERROR_ACCESS_DENIED, s')
          else (None, s'\<lparr>nodes := (nodes s)(k \<mapsto> new_directory 0)\<rparr>))"

definition sys_GetTempPath :: "os \<Rightarrow> string \<times> os" where
  "sys_GetTempPath s = (temp_path s, called GetTempPath s)"

text \<open>The empty file that \<^verbatim>\<open>GetTempFileName\<close> creates.\<close>

definition new_file :: inode where
  "new_file =
     \<lparr> i_stat = \<lparr> st_mode = S_IFREG, st_size = 0, st_mtim = \<lparr> tv_sec = 0, tv_nsec = 0 \<rparr> \<rparr>,
       i_data = \<lparr> dwFileAttributes = FILE_ATTRIBUTE_NORMAL,
                  ftLastWriteTime = \<lparr> dwLowDateTime = 0, dwHighDateTime = 0 \<rparr>,
                  nFileSizeHigh = 0, nFileSizeLow = 0 \<rparr> \<rparr>"

definition sys_GetTempFileName :: "string \<Rightarrow> string \<Rightarrow> os \<Rightarrow> string option \<times> os" where
  "sys_GetTempFileName tempPath prefix s =
     (let s' = called (GetTempFileName tempPath prefix) s;
          tempFile = tempPath @ temp_file s tempPath prefix
      in case resolve_new Windows (nodes s) tempFile of
           Inl e \<Rightarrow> (None, s')
         | Inr k \<Rightarrow>
             if node_at (nodes s) k \<noteq> None \<or> denied s (GetTempFileName tempPath prefix) then (None, s')
             else (Some tempFile, s'\<lparr>nodes := (nodes s)(k \<mapsto> new_file)\<rparr>))"

definition sys_CreateFile :: "string \<Rightarrow> os \<Rightarrow> string list option \<times> os" where
  "sys_CreateFile p s =
     (let s' = called (CreateFile p) s in
      case resolve Windows (nodes s) p of
        Inl e \<Rightarrow> (None, s')
      | Inr k \<Rightarrow>
          (case nodes s k of
             None \<Rightarrow> (None, s')
           | Some i \<Rightarrow>
               if is_directory Windows i
                  \<or> dwFileAttributes (i_data i) AND FILE_ATTRIBUTE_READONLY \<noteq> 0
                  \<or> denied s (CreateFile p)
               then (None, s')
               else (Some k, s')))"

definition sys_SetFileTime :: "string list \<Rightarrow> FILETIME \<Rightarrow> os \<Rightarrow> bool \<times> os" where
  "sys_SetFileTime h ft s =
     (let s' = called (SetFileTime h ft) s in
      case nodes s h of
        None \<Rightarrow> (False, s')
      | Some i \<Rightarrow>
          if denied s (SetFileTime h ft) then (False, s')
          else (True, s'\<lparr>nodes := (nodes s)(h \<mapsto> i\<lparr>i_data := (i_data i)\<lparr>ftLastWriteTime := ft\<rparr>\<rparr>)\<rparr>))"

definition sys_CloseHandle :: "string list \<Rightarrow> os \<Rightarrow> os" where
  "sys_CloseHandle h s = called (CloseHandle h) s"

subsection \<open>The functions of FileIO\<close>

text \<open>
  Each function takes the state of the system last and returns its result with the
  new state.
\<close>

definition FileExists :: "build \<Rightarrow> string \<Rightarrow> os \<Rightarrow> bool \<times> os" where
  "FileExists b fileName s =
     (if platform b = Windows then
        (case sys_GetFileAttributes fileName s of
           (None, s') \<Rightarrow> (False, s')
         | (Some attributes, s') \<Rightarrow> (True, s'))
      else
        (case sys_stat (platform b) fileName s of
           (Some st, s') \<Rightarrow> if st_mode st AND S_IFDIR \<noteq> S_IFDIR then (True, s') else (False, s')
         | (None, s') \<Rightarrow> (False, s')))"

definition FileCopy :: "build \<Rightarrow> string \<Rightarrow> string \<Rightarrow> bool \<Rightarrow> os \<Rightarrow> bool \<times> os" where
  "FileCopy b srcFileName dstFileName allowOverwrite s =
     (if platform b = Windows then
        (let failIfDestExists = \<not> allowOverwrite;
             (result, s1) = sys_CopyFile srcFileName dstFileName failIfDestExists s
         in if result \<noteq> None \<and> result = Some ERROR_ACCESS_DENIED \<and> allowOverwrite then
              (case sys_GetFileAttributes dstFileName s1 of
                 (None, s2) \<Rightarrow> (False, s2)
               | (Some dwAttrs, s2) \<Rightarrow>
                   if 0 = dwAttrs AND FILE_ATTRIBUTE_READONLY then (False, s2)
                   else
                     (let (ok, s3) = sys_SetFileAttributes dstFileName
                                       (dwAttrs AND NOT FILE_ATTRIBUTE_READONLY) s2
                      in if \<not> ok then (False, s3)
                         else
                           (let (result', s4) = sys_CopyFile srcFileName dstFileName failIfDestExists s3
                            in (result' = None, s4))))
            else (result = None, s1))
      else (False, s))"

definition GetFileInfo ::
    "build \<Rightarrow> string \<Rightarrow> FileInfo \<Rightarrow> os \<Rightarrow> (failure + bool \<times> FileInfo) \<times> os" where
  "GetFileInfo b fileName info s =
     (if platform b = Windows then
        (case sys_GetFileAttributesEx fileName s of
           (Some fileAttribs, s') \<Rightarrow>
             (Inr (True,
                   info\<lparr> m_Name := fileName,
                         m_Attributes := dwFileAttributes fileAttribs,
                         m_LastWriteTime := join64 (dwLowDateTime (ftLastWriteTime fileAttribs))
                                                   (dwHighDateTime (ftLastWriteTime fileAttribs)),
                         m_Size := join64 (nFileSizeLow fileAttribs) (nFileSizeHigh fileAttribs) \<rparr>),
              s')
         | (None, s') \<Rightarrow> (Inr (False, info), s'))
      else if asserts_enabled b then (Inl AssertFailed, s)
      else (Inr (False, info), s))"

definition DirectoryCreate :: "build \<Rightarrow> string \<Rightarrow> os \<Rightarrow> bool \<times> os" where
  "DirectoryCreate b path s =
     (if platform b = Windows then
        (case sys_CreateDirectory path s of
           (None, s') \<Rightarrow> (True, s')
         | (Some e, s') \<Rightarrow> if e = ERROR_ALREADY_EXISTS then (True, s') else (False, s'))
      else
        (let s1 = sys_umask 0 s;
             mode = S_IRWXU OR S_IRWXG OR S_IRWXO
         in case sys_mkdir (platform b) path mode s1 of
              (None, s') \<Rightarrow> (True, s')
            | (Some e, s') \<Rightarrow> if e = EEXIST then (True, s') else (False, s')))"

definition DirectoryExists :: "build \<Rightarrow> string \<Rightarrow> os \<Rightarrow> bool \<times> os" where
  "DirectoryExists b path s =
     (if platform b = Windows then
        (case sys_GetFileAttributes path s of
           (None, s') \<Rightarrow> (False, s')
         | (Some res, s') \<Rightarrow>
             if res AND FILE_ATTRIBUTE_DIRECTORY \<noteq> 0 then (True, s') else (False, s'))
      else
        (case sys_stat (platform b) path s of
           (Some st, s') \<Rightarrow> if st_mode st AND S_IFDIR \<noteq> 0 then (True, s') else (False, s')
         | (None, s') \<Rightarrow> (False, s')))"

text \<open>
  \<^verbatim>\<open>while ( P( *slash ) ) { ++slash; }\<close> over the characters from the pointer on:
  the index at which the loop stops, or \<open>None\<close> when the loop condition still held
  at the terminator and the pointer left the string.
\<close>

fun scan :: "(char \<Rightarrow> bool) \<Rightarrow> string \<Rightarrow> nat \<Rightarrow> nat option" where
  "scan P [] i = (if P (CHR 0x00) then None else Some i)"
| "scan P (c # cs) i = (if P c then scan P cs (Suc i) else Some i)"

text \<open>\<^verbatim>\<open>AString::Find( char, const char * startPos )\<close>: the first occurrence from \<open>startPos\<close> on.\<close>

fun find_from :: "char \<Rightarrow> string \<Rightarrow> nat \<Rightarrow> nat option" where
  "find_from c [] i = None"
| "find_from c (x # xs) i = (if x = c then Some i else find_from c xs (Suc i))"

definition Find :: "char \<Rightarrow> string \<Rightarrow> nat \<Rightarrow> nat option" where
  "Find c str startPos = find_from c (drop startPos str) startPos"

lemma find_from_bounds: "find_from c xs i = Some j \<Longrightarrow> i \<le> j \<and> j < i + length xs"
  by (induction xs arbitrary: i) (fastforce split: if_splits)+

lemma Find_bounds: "Find c str i = Some j \<Longrightarrow> i \<le> j \<and> j < length str"
  using find_from_bounds [of c "drop i str" i j] by (auto simp: Find_def)

text \<open>
  The \<^verbatim>\<open>do ... while ( slash )\<close> loop of \<^verbatim>\<open>EnsurePathExists\<close>. \<open>slash\<close> is the index
  the pointer is at; with \<^verbatim>\<open>*slash = 0\<close> the string that \<^verbatim>\<open>DirectoryExists\<close> and
  \<^verbatim>\<open>DirectoryCreate\<close> read is \<open>take slash pathCopy\<close>.
\<close>

function EnsurePathExists_loop :: "build \<Rightarrow> string \<Rightarrow> nat \<Rightarrow> os \<Rightarrow> bool \<times> os" where
  "EnsurePathExists_loop b pathCopy slash s =
     (let (exists, s1) = DirectoryExists b (take slash pathCopy) s;
          (created, s2) = (if exists then (True, s1) else DirectoryCreate b (take slash pathCopy) s1)
      in if \<not> created then (False, s2)
         else
           (case Find (NATIVE_SLASH b) pathCopy (slash + 1) of
              None \<Rightarrow> (True, s2)
            | Some slash' \<Rightarrow> EnsurePathExists_loop b pathCopy slash' s2))"
  by pat_completeness auto
termination
  by (relation "measure (\<lambda>(b, pathCopy, slash, s). length pathCopy - slash)")
     (auto dest!: Find_bounds)

declare EnsurePathExists_loop.simps [simp del]

text \<open>
  Where the search for the first level starts: on Windows after the leading slashes
  and the machine name of a UNC path, elsewhere after a leading slash. \<open>None\<close> when
  one of the two \<^verbatim>\<open>while\<close> loops of the Windows variant moves the pointer past the
  terminator.
\<close>

definition first_level_start :: "build \<Rightarrow> string \<Rightarrow> nat option" where
  "first_level_start b pathCopy =
     (if platform b = Windows then
        (if c_at pathCopy 0 = NATIVE_SLASH b then
           (case scan (\<lambda>c. c = NATIVE_SLASH b) pathCopy 0 of
              None \<Rightarrow> None
            | Some i \<Rightarrow>
                (case scan (\<lambda>c. c \<noteq> NATIVE_SLASH b) (drop i pathCopy) i of
                   None \<Rightarrow> None
                 | Some j \<Rightarrow> Some (j + 1)))
         else Some 0)
      else
        (if c_at pathCopy 0 = NATIVE_SLASH b then Some 1 else Some 0))"

definition EnsurePathExists :: "build \<Rightarrow> string \<Rightarrow> os \<Rightarrow> (failure + bool) \<times> os" where
  "EnsurePathExists b path s =
     (let (exists, s1) = DirectoryExists b path s in
      if exists then (Inr True, s1)
      else
        (let pathCopy = FixupFolderPath b path
         in case first_level_start b pathCopy of
              None \<Rightarrow> (Inl BufferOverrun, s1)
            | Some i \<Rightarrow>
                (case Find (NATIVE_SLASH b) pathCopy i of
                   None \<Rightarrow> (Inr False, s1)
                 | Some slash \<Rightarrow>
                     (let (r, s2) = EnsurePathExists_loop b pathCopy slash s1 in (Inr r, s2)))))"

text \<open>
  The levels of a path: the indices of the slashes that the loop visits from
  \<open>slash\<close> on, and the strings that \<^verbatim>\<open>EnsurePathExists\<close> hands to
  \<^verbatim>\<open>DirectoryExists\<close> and \<^verbatim>\<open>DirectoryCreate\<close> for a path, from the shallowest to
  the deepest.
\<close>

function slashes_from :: "char \<Rightarrow> string \<Rightarrow> nat \<Rightarrow> nat list" where
  "slashes_from c str slash =
     slash # (case Find c str (slash + 1) of None \<Rightarrow> [] | Some slash' \<Rightarrow> slashes_from c str slash')"
  by pat_completeness auto
termination
  by (relation "measure (\<lambda>(c, str, slash). length str - slash)") (auto dest!: Find_bounds)

declare slashes_from.simps [simp del]

definition levels :: "build \<Rightarrow> string \<Rightarrow> string list" where
  "levels b path =
     (let pathCopy = FixupFolderPath b path in
      case first_level_start b pathCopy of
        None \<Rightarrow> []
      | Some i \<Rightarrow>
          (case Find (NATIVE_SLASH b) pathCopy i of
             None \<Rightarrow> []
           | Some slash \<Rightarrow> map (\<lambda>j. take j pathCopy) (slashes_from (NATIVE_SLASH b) pathCopy slash)))"

text \<open>
  \<open>present\<close>: the path names a node of the file system. \<open>grown\<close>: the second file
  system holds every node of the first unchanged, and whatever else it holds is a
  directory.
\<close>

definition present :: "platform \<Rightarrow> (string list \<rightharpoonup> inode) \<Rightarrow> string \<Rightarrow> bool" where
  "present pl ns p = (case resolve_new pl ns p of Inl e \<Rightarrow> False | Inr k \<Rightarrow> node_at ns k \<noteq> None)"

definition grown :: "platform \<Rightarrow> (string list \<rightharpoonup> inode) \<Rightarrow> (string list \<rightharpoonup> inode) \<Rightarrow> bool" where
  "grown pl ns ns' = (ns \<subseteq>\<^sub>m ns' \<and> (\<forall>k i. ns' k = Some i \<longrightarrow> ns k = Some i \<or> is_directory pl i))"

definition CreateTempPath :: "build \<Rightarrow> string \<Rightarrow> string \<Rightarrow> os \<Rightarrow> (bool \<times> string) \<times> os" where
  "CreateTempPath b tempPrefix path s =
     (if platform b = Windows then
        (let (tempPath, s1) = sys_GetTempPath s
         in if length tempPath = 0 then ((False, path), s1)
            else
              (case sys_GetTempFileName tempPath tempPrefix s1 of
                 (None, s2) \<Rightarrow> ((False, path), s2)
               | (Some tempFile, s2) \<Rightarrow> ((True, tempFile), s2)))
      else ((False, path), s))"


text \<open>
  The \<^verbatim>\<open>FILETIME\<close> that \<^verbatim>\<open>SetFileLastWriteTime\<close> builds from its 64-bit argument:
  \<^verbatim>\<open>(uint32_t)( fileTime & 0x00000000FFFFFFFF )\<close> and
  \<^verbatim>\<open>(uint32_t)( ( fileTime & 0xFFFFFFFF00000000 ) >> 32 )\<close>.
\<close>

definition ftWrite_of :: "uint64_t \<Rightarrow> FILETIME" where
  "ftWrite_of fileTime =
     \<lparr> dwLowDateTime = ucast (fileTime AND 0x00000000FFFFFFFF),
       dwHighDateTime = ucast (drop_bit 32 (fileTime AND 0xFFFFFFFF00000000)) \<rparr>"

definition SetFileLastWriteTime :: "build \<Rightarrow> string \<Rightarrow> uint64_t \<Rightarrow> os \<Rightarrow> bool \<times> os" where
  "SetFileLastWriteTime b fileName fileTime s =
     (if platform b = Windows then
        (case sys_CreateFile fileName s of
           (None, s1) \<Rightarrow> (False, s1)
         | (Some hFile, s1) \<Rightarrow>
             (let ftWrite = ftWrite_of fileTime;
                  (ok, s2) = sys_SetFileTime hFile ftWrite s1
              in if \<not> ok then (False, sys_CloseHandle hFile s2)
                 else (True, sys_CloseHandle hFile s2)))
      else (False, s))"

definition SetReadOnly :: "build \<Rightarrow> string \<Rightarrow> bool \<Rightarrow> os \<Rightarrow> bool \<times> os" where
  "SetReadOnly b fileName readOnly s =
     (if platform b = Windows then
        (case sys_GetFileAttributes fileName s of
           (None, s1) \<Rightarrow> (False, s1)
         | (Some dwAttrs, s1) \<Rightarrow>
             (let dwNewAttrs = (if readOnly then dwAttrs OR FILE_ATTRIBUTE_READONLY
                                else dwAttrs AND NOT FILE_ATTRIBUTE_READONLY)
              in if dwNewAttrs = dwAttrs then (True, s1)
                 else
                   (let (ok, s2) = sys_SetFileAttributes fileName dwNewAttrs s1
                    in if \<not> ok then (False, s2) else (True, s2))))
      else (False, s))"

subsection \<open>WorkAroundForWindowsFilePermissionProblem\<close>

text \<open>
  The function exists on Windows only. Its loop depends on two things outside the
  program: \<open>opens n\<close> says whether the \<open>n\<close>-th call of \<^verbatim>\<open>f.Open\<close> succeeds (counting
  from 0), and \<open>elapsed n\<close> is what \<^verbatim>\<open>timer.GetElapsed()\<close> returns, in seconds, after
  the \<^verbatim>\<open>Thread::Sleep( 1 )\<close> that follows the \<open>n\<close>-th failed call. The loop may run
  forever, so the function returns an option: \<open>None\<close> is a loop that does not end.
  It ends with the file closed again (\<open>Closed\<close>), or gives up after the timeout, where
  \<^verbatim>\<open>ASSERT( false && ... )\<close> stops a build with assertions.
\<close>

datatype workaround_end = Closed | GaveUp

partial_function (option) WorkAround_loop ::
    "build \<Rightarrow> (nat \<Rightarrow> bool) \<Rightarrow> (nat \<Rightarrow> real) \<Rightarrow> nat \<Rightarrow> (failure + workaround_end) option"
where
  "WorkAround_loop b opens elapsed n =
     (if opens n then Some (Inr Closed)
      else if elapsed n > 1.0 then
        (if asserts_enabled b then Some (Inl AssertFailed) else Some (Inr GaveUp))
      else WorkAround_loop b opens elapsed (Suc n))"

definition WorkAroundForWindowsFilePermissionProblem ::
    "build \<Rightarrow> (nat \<Rightarrow> bool) \<Rightarrow> (nat \<Rightarrow> real) \<Rightarrow> (failure + workaround_end) option"
where
  "WorkAroundForWindowsFilePermissionProblem b opens elapsed = WorkAround_loop b opens elapsed 0"

subsection \<open>Instances for the closed theorems\<close>

text \<open>
  Two builds and an empty file system, on which the closed theorems below evaluate
  the functions. \<open>slash_terminated\<close> stands for \<^verbatim>\<open>EnsureTrailingSlash\<close> and
  \<^verbatim>\<open>FixupFolderPath\<close> on paths that need no other repair, \<open>star_or_same\<close> for
  \<^verbatim>\<open>IsWildcardMatch\<close> on the pattern \<^verbatim>\<open>*\<close> and on patterns without wildcard
  characters. The general theorems hold for every value of these parameters.
\<close>

definition slash_terminated :: "char \<Rightarrow> string \<Rightarrow> string" where
  "slash_terminated c p = (if p \<noteq> [] \<and> last p = c then p else p @ [c])"

definition star_or_same :: "string \<Rightarrow> string \<Rightarrow> bool" where
  "star_or_same wildCard name = (wildCard = ''*'' \<or> wildCard = name)"

definition linux_release :: build where
  "linux_release =
     \<lparr> platform = Linux, asserts_enabled = False, NATIVE_SLASH = CHR ''/'',
       EnsureTrailingSlash = slash_terminated (CHR ''/''),
       FixupFolderPath = slash_terminated (CHR ''/''),
       IsWildcardMatch = star_or_same \<rparr>"

definition linux_debug :: build where
  "linux_debug = linux_release\<lparr>asserts_enabled := True\<rparr>"

definition windows_release :: build where
  "windows_release =
     \<lparr> platform = Windows, asserts_enabled = False, NATIVE_SLASH = CHR 0x5C,
       EnsureTrailingSlash = slash_terminated (CHR 0x5C),
       FixupFolderPath = slash_terminated (CHR 0x5C),
       IsWildcardMatch = star_or_same \<rparr>"

definition empty_os :: os where
  "empty_os =
     \<lparr> nodes = Map.empty, denied = (\<lambda>c. False), umask_value = 0x12,
       temp_path = [], temp_file = (\<lambda>d p. p), calls = [] \<rparr>"

text \<open>A regular file of the given size, and a file system that holds the listed nodes.\<close>

definition regular_file :: "uint64_t \<Rightarrow> inode" where
  "regular_file sz =
     \<lparr> i_stat = \<lparr> st_mode = S_IFREG OR 0x1A4, st_size = sz, st_mtim = \<lparr> tv_sec = 1700000000, tv_nsec = 5 \<rparr> \<rparr>,
       i_data = \<lparr> dwFileAttributes = FILE_ATTRIBUTE_NORMAL,
                  ftLastWriteTime = \<lparr> dwLowDateTime = 9, dwHighDateTime = 1 \<rparr>,
                  nFileSizeHigh = ucast (drop_bit 32 sz), nFileSizeLow = ucast sz \<rparr> \<rparr>"

definition os_with :: "(string list \<times> inode) list \<Rightarrow> os" where
  "os_with xs = empty_os\<lparr>nodes := map_of xs\<rparr>"




text \<open>A file system in which the directory \<^verbatim>\<open>build\<close> holds the regular file \<^verbatim>\<open>out\<close>.\<close>

definition occupied_example :: os where
  "occupied_example = os_with [([''build''], new_directory 0x1ED), ([''build'', ''out''], regular_file 3)]"

text \<open>A file system that holds the directory \<^verbatim>\<open>build\<close> and nothing else.\<close>

definition build_example :: os where
  "build_example = os_with [([''build''], new_directory 0x1ED)]"

lemmas sys_defs = sys_stat_def sys_umask_def sys_mkdir_def sys_GetFileAttributes_def
  sys_GetFileAttributesEx_def sys_SetFileAttributes_def sys_CopyFile_def sys_CreateDirectory_def
  sys_GetTempPath_def sys_GetTempFileName_def sys_CreateFile_def sys_SetFileTime_def
  sys_CloseHandle_def called_def

lemmas eval_path = lookup_def resolve_def resolve_new_def path_components_def is_separator_def
  node_at_def is_directory_def new_directory_def FILE_ATTRIBUTE_DIRECTORY_def S_IFDIR_def S_IFMT_def

text \<open>
  A directory listing as a system reports it: the two special entries, a
  sub-directory of the given name that holds the file \<^verbatim>\<open>a.cpp\<close>, and the file
  \<^verbatim>\<open>b.h\<close>.
\<close>

definition entry_of :: "string \<Rightarrow> 8 word \<Rightarrow> 32 word \<Rightarrow> DWORD \<Rightarrow> entry list option \<Rightarrow> entry" where
  "entry_of name dtype mode attributes sub =
     Entry \<lparr> d_name = name, d_type = dtype \<rparr>
           (True, \<lparr> st_mode = mode, st_size = 3, st_mtim = \<lparr> tv_sec = 2, tv_nsec = 5 \<rparr> \<rparr>)
           \<lparr> dwFileAttributes = attributes,
             ftLastWriteTime = \<lparr> dwLowDateTime = 9, dwHighDateTime = 1 \<rparr>,
             nFileSizeHigh = 0, nFileSizeLow = 3, cFileName = name \<rparr>
           sub"

definition file_entry :: "string \<Rightarrow> entry" where
  "file_entry name = entry_of name DT_REG (S_IFREG OR 0x1A4) FILE_ATTRIBUTE_NORMAL None"

definition dot_entry :: "string \<Rightarrow> entry" where
  "dot_entry name = entry_of name DT_DIR (S_IFDIR OR 0x1ED) FILE_ATTRIBUTE_DIRECTORY None"

definition dir_entry :: "string \<Rightarrow> entry list \<Rightarrow> entry" where
  "dir_entry name es =
     entry_of name DT_DIR (S_IFDIR OR 0x1ED) FILE_ATTRIBUTE_DIRECTORY
       (Some (dot_entry ''.'' # dot_entry ''..'' # es))"

definition example_listing :: "string \<Rightarrow> entry list option" where
  "example_listing sub =
     Some [dot_entry ''.'', dot_entry ''..'', dir_entry sub [file_entry ''a.cpp''], file_entry ''b.h'']"

text \<open>A listing that holds a socket: \<^verbatim>\<open>readdir\<close> reports it with the type \<^verbatim>\<open>DT_SOCK\<close>.\<close>

definition socket_listing :: "entry list option" where
  "socket_listing =
     Some [dot_entry ''.'', dot_entry ''..'',
           entry_of ''x.sock'' DT_SOCK 0xC1ED FILE_ATTRIBUTE_NORMAL None,
           file_entry ''b.h'']"

text \<open>
  A listing that holds a symbolic link to a file that is not there: \<^verbatim>\<open>readdir\<close> reports
  it with the type \<^verbatim>\<open>DT_LNK\<close>, \<^verbatim>\<open>stat\<close> of it fails, and \<^verbatim>\<open>info\<close> holds what was there
  before the call.
\<close>

definition dangling_listing :: "entry list option" where
  "dangling_listing =
     Some [dot_entry ''.'', dot_entry ''..'',
           Entry \<lparr> d_name = ''broken'', d_type = DT_LNK \<rparr>
                 (False, \<lparr> st_mode = 0x7F21, st_size = 77, st_mtim = \<lparr> tv_sec = 1, tv_nsec = 4 \<rparr> \<rparr>)
                 \<lparr> dwFileAttributes = FILE_ATTRIBUTE_NORMAL,
                   ftLastWriteTime = \<lparr> dwLowDateTime = 9, dwHighDateTime = 1 \<rparr>,
                   nFileSizeHigh = 0, nFileSizeLow = 0, cFileName = ''broken'' \<rparr>
                 None]"

lemmas eval_entries = example_listing_def dir_entry_def dot_entry_def file_entry_def entry_of_def
  DT_DIR_def DT_REG_def FILE_ATTRIBUTE_DIRECTORY_def FILE_ATTRIBUTE_NORMAL_def c_at_def
  slash_terminated_def star_or_same_def Let_def

section \<open>Properties\<close>

subsection \<open>GetFiles and GetFilesEx\<close>

text \<open>Every loop of the enumeration only appends to the results it was given.\<close>

lemma win_files_loop_appends: "\<exists>xs. snd (win_files_loop b n w es p r) = r @ xs"
proof (induction es arbitrary: p r)
  case Nil
  show ?case by simp
next
  case (Cons e es)
  obtain xs where "snd (win_files_loop b n w es (take n p @ cFileName (find_data e))
                      (r @ [take n p @ cFileName (find_data e)]))
                   = (r @ [take n p @ cFileName (find_data e)]) @ xs"
    using Cons.IH by blast
  with Cons.IH [of p r] show ?case by (auto simp: Let_def)
qed

lemma posix_files_loop_appends: "\<exists>xs. snd (posix_files_loop b n w es p r) = r @ xs"
proof (induction es arbitrary: p r)
  case Nil
  show ?case by simp
next
  case (Cons e es)
  obtain xs where "snd (posix_files_loop b n w es (take n p @ d_name (posix_entry e))
                      (r @ [take n p @ d_name (posix_entry e)]))
                   = (r @ [take n p @ d_name (posix_entry e)]) @ xs"
    using Cons.IH by blast
  with Cons.IH [of p r] show ?case by (auto simp: Let_def)
qed

lemma GetFilesRecurse_appends:
  "\<exists>xs. snd (GetFilesRecurse b pathCopy w dir r) = r @ xs"
  "\<exists>xs. snd (win_dirs_loop b n w es p r) = r @ xs"
  "\<exists>xs. snd (posix_loop b n w es p r) = r @ xs"
proof (induction b pathCopy w dir r and b n w es p r and b n w es p r
       rule: GetFilesRecurse_win_dirs_loop_posix_loop.induct)
  case (1 b pathCopy wildCard dir results)
  show ?case
  proof (cases "platform b = Windows")
    case True
    show ?thesis
    proof (cases dir)
      case None
      with True show ?thesis by (simp add: GetFilesRecurse.simps)
    next
      case (Some es)
      show ?thesis
      proof (cases es)
        case Nil
        with True Some show ?thesis by (simp add: GetFilesRecurse.simps)
      next
        case (Cons e es')
        obtain p' r' where d: "win_dirs_loop b (length pathCopy) wildCard (e # es') (pathCopy @ ''*'') results = (p', r')"
          by (cases "win_dirs_loop b (length pathCopy) wildCard (e # es') (pathCopy @ ''*'') results")
        from "1.IH"(1) [OF True Some Cons] d obtain xs where xs: "r' = results @ xs" by auto
        obtain ys where "snd (win_files_loop b (length pathCopy) wildCard (e # es')
                                (take (length pathCopy) p' @ ''*'') r') = r' @ ys"
          using win_files_loop_appends by blast
        with True Some Cons d xs show ?thesis by (simp add: GetFilesRecurse.simps)
      qed
    qed
  next
    case False
    show ?thesis
    proof (cases dir)
      case None
      with False show ?thesis by (simp add: GetFilesRecurse.simps)
    next
      case (Some es)
      with False "1.IH"(2) [OF False Some] show ?thesis by (simp add: GetFilesRecurse.simps)
    qed
  qed
next
  case (2 b baseLength wildCard pathCopy results)
  show ?case by simp
next
  case (3 b baseLength wildCard e es pathCopy results)
  show ?case
  proof (cases "dwFileAttributes (find_data e) AND FILE_ATTRIBUTE_DIRECTORY \<noteq> 0")
    case False
    with "3.IH"(4) show ?thesis by simp
  next
    case dir: True
    show ?thesis
    proof (cases "c_at (cFileName (find_data e)) 0 = CHR ''.'' \<and>
            (c_at (cFileName (find_data e)) 1 = CHR ''.'' \<or> c_at (cFileName (find_data e)) 1 = CHR 0x00)")
      case True
      have "win_dirs_loop b baseLength wildCard (e # es) pathCopy results
              = win_dirs_loop b baseLength wildCard es pathCopy results"
        by (simp only: win_dirs_loop.simps if_P [OF dir] if_P [OF True])
      with "3.IH"(1) [OF dir True] show ?thesis by simp
    next
      case False
      obtain p' r' where g: "GetFilesRecurse b
            (take baseLength pathCopy @ cFileName (find_data e) @ [NATIVE_SLASH b])
            wildCard (listing e) results = (p', r')"
        by (cases "GetFilesRecurse b
            (take baseLength pathCopy @ cFileName (find_data e) @ [NATIVE_SLASH b])
            wildCard (listing e) results")
      from "3.IH"(2) [OF dir False] g obtain xs where xs: "r' = results @ xs" by auto
      from "3.IH"(3) [OF dir False g [symmetric] refl] obtain ys where
        "snd (win_dirs_loop b baseLength wildCard es p' r') = r' @ ys" by blast
      moreover have "win_dirs_loop b baseLength wildCard (e # es) pathCopy results
                       = win_dirs_loop b baseLength wildCard es p' r'"
        by (simp only: win_dirs_loop.simps if_P [OF dir] if_not_P [OF False] g Let_def prod.case)
      ultimately show ?thesis using xs by simp
    qed
  qed
next
  case (4 b baseLength wildCard pathCopy results)
  show ?case by simp
next
  case (5 b baseLength wildCard e es pathCopy results)
  show ?case
  proof (cases "d_type (posix_entry e) AND DT_DIR = DT_DIR")
    case dir: True
    show ?thesis
    proof (cases "c_at (d_name (posix_entry e)) 0 = CHR ''.'' \<and>
            (c_at (d_name (posix_entry e)) 1 = CHR 0x00 \<or>
             (c_at (d_name (posix_entry e)) 1 = CHR ''.'' \<and> c_at (d_name (posix_entry e)) 2 = CHR 0x00))")
      case True
      have "posix_loop b baseLength wildCard (e # es) pathCopy results
              = posix_loop b baseLength wildCard es pathCopy results"
        by (simp only: posix_loop.simps if_P [OF dir] if_P [OF True])
      with "5.IH"(1) [OF dir True] show ?thesis by simp
    next
      case False
      obtain p' r' where g: "GetFilesRecurse b
            (take baseLength pathCopy @ d_name (posix_entry e) @ [NATIVE_SLASH b])
            wildCard (listing e) results = (p', r')"
        by (cases "GetFilesRecurse b
            (take baseLength pathCopy @ d_name (posix_entry e) @ [NATIVE_SLASH b])
            wildCard (listing e) results")
      from "5.IH"(2) [OF dir False] g obtain xs where xs: "r' = results @ xs" by auto
      from "5.IH"(3) [OF dir False g [symmetric] refl] obtain ys where
        "snd (posix_loop b baseLength wildCard es p' r') = r' @ ys" by blast
      moreover have "posix_loop b baseLength wildCard (e # es) pathCopy results
                       = posix_loop b baseLength wildCard es p' r'"
        by (simp only: posix_loop.simps if_P [OF dir] if_not_P [OF False] g Let_def prod.case)
      ultimately show ?thesis using xs by simp
    qed
  next
    case False
    show ?thesis
    proof (cases "IsWildcardMatch b wildCard (d_name (posix_entry e))")
      case True
      from "5.IH"(4) [OF False True refl] obtain ys where
        "snd (posix_loop b baseLength wildCard es (take baseLength pathCopy @ d_name (posix_entry e))
               (results @ [take baseLength pathCopy @ d_name (posix_entry e)]))
         = (results @ [take baseLength pathCopy @ d_name (posix_entry e)]) @ ys" by blast
      with False True show ?thesis by (simp add: Let_def)
    next
      case nomatch: False
      with False "5.IH"(5) show ?thesis by simp
    qed
  qed
qed

lemma win_files_loop_ex_appends: "\<exists>xs. snd (win_files_loop_ex b n w es p r) = r @ xs"
proof (induction es arbitrary: p r)
  case Nil
  show ?case by simp
next
  case (Cons e es)
  obtain xs where "snd (win_files_loop_ex b n w es (take n p @ cFileName (find_data e))
                      (r @ [win_FileInfo (take n p @ cFileName (find_data e)) (find_data e)]))
                   = (r @ [win_FileInfo (take n p @ cFileName (find_data e)) (find_data e)]) @ xs"
    using Cons.IH by blast
  with Cons.IH [of p r] show ?case by (auto simp: Let_def)
qed

lemma posix_files_loop_ex_appends:
  "posix_files_loop_ex b n w es p r = Inr (p', r') \<Longrightarrow> \<exists>xs. r' = r @ xs"
proof (induction es arbitrary: p r)
  case Nil
  then show ?case by simp
next
  case (Cons e es)
  show ?case
  proof (cases "d_type (posix_entry e) AND DT_DIR = DT_DIR")
    case True
    with Cons show ?thesis by simp
  next
    case False
    show ?thesis
    proof (cases "IsWildcardMatch b w (d_name (posix_entry e))")
      case nomatch: False
      with False Cons show ?thesis by simp
    next
      case True
      with False Cons.prems obtain i where
        "posix_files_loop_ex b n w es (take n p @ d_name (posix_entry e)) (r @ [i]) = Inr (p', r')"
        by (auto simp: Let_def split: sum.splits)
      from Cons.IH [OF this] show ?thesis by auto
    qed
  qed
qed

lemma GetFilesRecurseEx_appends:
  "\<forall>p' r'. GetFilesRecurseEx b pathCopy w dir r = Inr (p', r') \<longrightarrow> (\<exists>xs. r' = r @ xs)"
  "\<forall>p' r'. win_dirs_loop_ex b n w es p r = Inr (p', r') \<longrightarrow> (\<exists>xs. r' = r @ xs)"
  "\<forall>p' r'. posix_loop_ex b n w es p r = Inr (p', r') \<longrightarrow> (\<exists>xs. r' = r @ xs)"
proof (induction b pathCopy w dir r and b n w es p r and b n w es p r
       rule: GetFilesRecurseEx_win_dirs_loop_ex_posix_loop_ex.induct)
  case (1 b pathCopy wildCard dir results)
  show ?case
  proof (intro allI impI)
    fix p' r' assume a: "GetFilesRecurseEx b pathCopy wildCard dir results = Inr (p', r')"
    show "\<exists>xs. r' = results @ xs"
    proof (cases "platform b = Windows")
      case True
      show ?thesis
      proof (cases dir)
        case None
        with True a show ?thesis by (simp add: GetFilesRecurseEx.simps)
      next
        case (Some es)
        show ?thesis
        proof (cases es)
          case Nil
          with True Some a show ?thesis by (simp add: GetFilesRecurseEx.simps)
        next
          case (Cons e es')
          from a True Some Cons obtain p1 r1 where
            d: "win_dirs_loop_ex b (length pathCopy) wildCard (e # es') (pathCopy @ ''*'') results = Inr (p1, r1)"
            and f: "win_files_loop_ex b (length pathCopy) wildCard (e # es')
                      (take (length pathCopy) p1 @ ''*'') r1 = (p', r')"
            by (auto simp: GetFilesRecurseEx.simps split: sum.splits)
          from "1.IH"(1) [OF True Some Cons] d obtain xs where xs: "r1 = results @ xs" by blast
          obtain ys where "snd (win_files_loop_ex b (length pathCopy) wildCard (e # es')
                                  (take (length pathCopy) p1 @ ''*'') r1) = r1 @ ys"
            using win_files_loop_ex_appends by blast
          with f xs show ?thesis by simp
        qed
      qed
    next
      case False
      show ?thesis
      proof (cases dir)
        case None
        with False a show ?thesis by (simp add: GetFilesRecurseEx.simps)
      next
        case (Some es)
        with False a "1.IH"(2) [OF False Some] show ?thesis by (simp add: GetFilesRecurseEx.simps)
      qed
    qed
  qed
next
  case (2 b baseLength wildCard pathCopy results)
  show ?case by simp
next
  case (3 b baseLength wildCard e es pathCopy results)
  show ?case
  proof (intro allI impI)
    fix p' r' assume a: "win_dirs_loop_ex b baseLength wildCard (e # es) pathCopy results = Inr (p', r')"
    show "\<exists>xs. r' = results @ xs"
    proof (cases "dwFileAttributes (find_data e) AND FILE_ATTRIBUTE_DIRECTORY \<noteq> 0")
      case False
      from a have "win_dirs_loop_ex b baseLength wildCard es pathCopy results = Inr (p', r')"
        by (simp only: win_dirs_loop_ex.simps if_not_P [OF False])
      with "3.IH"(4) [OF False] show ?thesis by blast
    next
      case dir: True
      show ?thesis
      proof (cases "c_at (cFileName (find_data e)) 0 = CHR ''.'' \<and>
              (c_at (cFileName (find_data e)) 1 = CHR ''.'' \<or> c_at (cFileName (find_data e)) 1 = CHR 0x00)")
        case True
        from a have "win_dirs_loop_ex b baseLength wildCard es pathCopy results = Inr (p', r')"
          by (simp only: win_dirs_loop_ex.simps if_P [OF dir] if_P [OF True])
        with "3.IH"(1) [OF dir True] show ?thesis by blast
      next
        case False
        from a have "(case GetFilesRecurseEx b
                          (take baseLength pathCopy @ cFileName (find_data e) @ [NATIVE_SLASH b])
                          wildCard (listing e) results of
                     Inl f \<Rightarrow> Inl f
                   | Inr (pathCopy', results') \<Rightarrow> win_dirs_loop_ex b baseLength wildCard es pathCopy' results')
                 = Inr (p', r')"
          by (simp only: win_dirs_loop_ex.simps if_P [OF dir] if_not_P [OF False])
        then obtain p1 r1 where
          g: "GetFilesRecurseEx b (take baseLength pathCopy @ cFileName (find_data e) @ [NATIVE_SLASH b])
                wildCard (listing e) results = Inr (p1, r1)"
          and l: "win_dirs_loop_ex b baseLength wildCard es p1 r1 = Inr (p', r')"
          by (auto split: sum.splits)
        from "3.IH"(2) [OF dir False] g obtain xs where xs: "r1 = results @ xs" by blast
        from "3.IH"(3) [OF dir False g refl] l obtain ys where "r' = r1 @ ys" by blast
        with xs show ?thesis by simp
      qed
    qed
  qed
next
  case (4 b baseLength wildCard pathCopy results)
  show ?case by simp
next
  case (5 b baseLength wildCard e es pathCopy results)
  show ?case
  proof (intro allI impI)
    fix p' r' assume a: "posix_loop_ex b baseLength wildCard (e # es) pathCopy results = Inr (p', r')"
    show "\<exists>xs. r' = results @ xs"
    proof (cases "d_type (posix_entry e) AND DT_DIR = DT_DIR")
      case dir: True
      show ?thesis
      proof (cases "c_at (d_name (posix_entry e)) 0 = CHR ''.'' \<and>
              (c_at (d_name (posix_entry e)) 1 = CHR 0x00 \<or>
               (c_at (d_name (posix_entry e)) 1 = CHR ''.'' \<and> c_at (d_name (posix_entry e)) 2 = CHR 0x00))")
        case True
        from a have "posix_loop_ex b baseLength wildCard es pathCopy results = Inr (p', r')"
          by (simp only: posix_loop_ex.simps if_P [OF dir] if_P [OF True])
        with "5.IH"(1) [OF dir True] show ?thesis by blast
      next
        case False
        from a have "(case GetFilesRecurseEx b
                          (take baseLength pathCopy @ d_name (posix_entry e) @ [NATIVE_SLASH b])
                          wildCard (listing e) results of
                     Inl f \<Rightarrow> Inl f
                   | Inr (pathCopy', results') \<Rightarrow> posix_loop_ex b baseLength wildCard es pathCopy' results')
                 = Inr (p', r')"
          by (simp only: posix_loop_ex.simps if_P [OF dir] if_not_P [OF False])
        then obtain p1 r1 where
          g: "GetFilesRecurseEx b (take baseLength pathCopy @ d_name (posix_entry e) @ [NATIVE_SLASH b])
                wildCard (listing e) results = Inr (p1, r1)"
          and l: "posix_loop_ex b baseLength wildCard es p1 r1 = Inr (p', r')"
          by (auto split: sum.splits)
        from "5.IH"(2) [OF dir False] g obtain xs where xs: "r1 = results @ xs" by blast
        from "5.IH"(3) [OF dir False g refl] l obtain ys where "r' = r1 @ ys" by blast
        with xs show ?thesis by simp
      qed
    next
      case False
      show ?thesis
      proof (cases "IsWildcardMatch b wildCard (d_name (posix_entry e))")
        case True
        from a have "(case posix_FileInfo b (take baseLength pathCopy @ d_name (posix_entry e)) (posix_stat e) of
                     Inl f \<Rightarrow> Inl f
                   | Inr newInfo \<Rightarrow>
                       posix_loop_ex b baseLength wildCard es
                         (take baseLength pathCopy @ d_name (posix_entry e)) (results @ [newInfo]))
                 = Inr (p', r')"
          by (simp only: posix_loop_ex.simps if_not_P [OF False] if_P [OF True] Let_def)
        then obtain i where
          i: "posix_FileInfo b (take baseLength pathCopy @ d_name (posix_entry e)) (posix_stat e) = Inr i"
          and l: "posix_loop_ex b baseLength wildCard es (take baseLength pathCopy @ d_name (posix_entry e))
                    (results @ [i]) = Inr (p', r')"
          by (auto split: sum.splits)
        from "5.IH"(4) [OF False True refl i] l obtain ys where "r' = (results @ [i]) @ ys" by blast
        then show ?thesis by simp
      next
        case nomatch: False
        from a have "posix_loop_ex b baseLength wildCard es pathCopy results = Inr (p', r')"
          by (simp only: posix_loop_ex.simps if_not_P [OF False] if_not_P [OF nomatch])
        with "5.IH"(5) [OF False nomatch] show ?thesis by blast
      qed
    qed
  qed
qed

text \<open>
  Where the enumeration stops instead of returning: only at a \<^verbatim>\<open>VERIFY\<close> that fails,
  that is in a build with assertions, on Linux or macOS, when a \<^verbatim>\<open>stat\<close> fails.
\<close>

lemma posix_FileInfo_returns:
  "\<not> asserts_enabled b \<or> fst st \<Longrightarrow> \<exists>i. posix_FileInfo b p st = Inr i"
  by (auto simp: posix_FileInfo_def split: prod.splits)

lemma posix_FileInfo_fails: "posix_FileInfo b p st = Inl f \<Longrightarrow> f = AssertFailed"
  by (auto simp: posix_FileInfo_def split: prod.splits if_splits)

lemma stats_succeed_entry:
  "stats_succeed e \<Longrightarrow> fst (posix_stat e) \<and> every_stat_succeeds (listing e)"
  by (cases e) (simp add: every_stat_succeeds_def)

lemma posix_files_loop_ex_returns:
  "\<not> asserts_enabled b \<or> list_all stats_succeed es \<Longrightarrow>
   \<exists>r. posix_files_loop_ex b n w es p results = Inr r"
proof (induction es arbitrary: p results)
  case Nil
  show ?case by simp
next
  case (Cons e es)
  from Cons.prems have t: "\<not> asserts_enabled b \<or> list_all stats_succeed es"
    and h: "\<not> asserts_enabled b \<or> fst (posix_stat e)"
    using stats_succeed_entry by auto
  from posix_FileInfo_returns [OF h] obtain i where
    i: "posix_FileInfo b (take n p @ d_name (posix_entry e)) (posix_stat e) = Inr i" by blast
  from Cons.IH [OF t] i show ?case by (simp add: Let_def)
qed

lemma posix_files_loop_ex_fails:
  "posix_files_loop_ex b n w es p results = Inl f \<Longrightarrow> f = AssertFailed"
proof (induction es arbitrary: p results)
  case Nil
  then show ?case by simp
next
  case (Cons e es)
  show ?case
  proof (cases "d_type (posix_entry e) AND DT_DIR = DT_DIR")
    case True
    with Cons show ?thesis by simp
  next
    case False
    show ?thesis
    proof (cases "IsWildcardMatch b w (d_name (posix_entry e))")
      case nomatch: False
      with False Cons show ?thesis by simp
    next
      case True
      show ?thesis
      proof (cases "posix_FileInfo b (take n p @ d_name (posix_entry e)) (posix_stat e)")
        case (Inl g)
        with False True Cons.prems have "f = g" by (simp add: Let_def)
        with posix_FileInfo_fails [OF Inl] show ?thesis by simp
      next
        case (Inr i)
        with False True Cons.prems have
          "posix_files_loop_ex b n w es (take n p @ d_name (posix_entry e)) (results @ [i]) = Inl f"
          by (simp add: Let_def)
        from Cons.IH [OF this] show ?thesis .
      qed
    qed
  qed
qed

lemma GetFilesRecurseEx_returns:
  "platform b = Windows \<or> \<not> asserts_enabled b \<or> every_stat_succeeds dir \<Longrightarrow>
   \<exists>r. GetFilesRecurseEx b pathCopy w dir results = Inr r"
  "platform b = Windows \<or> \<not> asserts_enabled b \<or> list_all stats_succeed es \<Longrightarrow>
   \<exists>r. win_dirs_loop_ex b n w es p results = Inr r"
  "\<not> asserts_enabled b \<or> list_all stats_succeed es \<Longrightarrow>
   \<exists>r. posix_loop_ex b n w es p results = Inr r"
proof (induction b pathCopy w dir results and b n w es p results and b n w es p results
       rule: GetFilesRecurseEx_win_dirs_loop_ex_posix_loop_ex.induct)
  case (1 b pathCopy wildCard dir results)
  show ?case
  proof (cases "platform b = Windows")
    case True
    show ?thesis
    proof (cases dir)
      case None
      with True show ?thesis by (simp add: GetFilesRecurseEx.simps)
    next
      case (Some es)
      show ?thesis
      proof (cases es)
        case Nil
        with Some True show ?thesis by (simp add: GetFilesRecurseEx.simps)
      next
        case (Cons e es')
        from True have "platform b = Windows \<or> \<not> asserts_enabled b \<or> list_all stats_succeed (e # es')"
          by simp
        from "1.IH"(1) [OF True Some Cons this] obtain r where
          "win_dirs_loop_ex b (length pathCopy) wildCard (e # es') (pathCopy @ ''*'') results = Inr r"
          by blast
        with Some Cons True show ?thesis
          by (cases r) (simp add: GetFilesRecurseEx.simps)
      qed
    qed
  next
    case False
    show ?thesis
    proof (cases dir)
      case None
      with False show ?thesis by (simp add: GetFilesRecurseEx.simps)
    next
      case (Some es)
      from "1.prems" False Some have "\<not> asserts_enabled b \<or> list_all stats_succeed es"
        by (simp add: every_stat_succeeds_def)
      from "1.IH"(2) [OF False Some this] obtain r where
        "posix_loop_ex b (length pathCopy) wildCard es pathCopy results = Inr r" by blast
      with False Some show ?thesis by (simp add: GetFilesRecurseEx.simps)
    qed
  qed
next
  case (2 b baseLength wildCard pathCopy results)
  show ?case by simp
next
  case (3 b baseLength wildCard e es pathCopy results)
  from "3.prems" have t: "platform b = Windows \<or> \<not> asserts_enabled b \<or> list_all stats_succeed es"
    and h: "platform b = Windows \<or> \<not> asserts_enabled b \<or> every_stat_succeeds (listing e)"
    using stats_succeed_entry by auto
  show ?case
  proof (cases "dwFileAttributes (find_data e) AND FILE_ATTRIBUTE_DIRECTORY \<noteq> 0")
    case False
    from "3.IH"(4) [OF False t] obtain r where
      "win_dirs_loop_ex b baseLength wildCard es pathCopy results = Inr r" by blast
    moreover have "win_dirs_loop_ex b baseLength wildCard (e # es) pathCopy results
                     = win_dirs_loop_ex b baseLength wildCard es pathCopy results"
      by (simp only: win_dirs_loop_ex.simps if_not_P [OF False])
    ultimately show ?thesis by simp
  next
    case dir: True
    show ?thesis
    proof (cases "c_at (cFileName (find_data e)) 0 = CHR ''.'' \<and>
            (c_at (cFileName (find_data e)) 1 = CHR ''.'' \<or> c_at (cFileName (find_data e)) 1 = CHR 0x00)")
      case True
      from "3.IH"(1) [OF dir True t] obtain r where
        "win_dirs_loop_ex b baseLength wildCard es pathCopy results = Inr r" by blast
      moreover have "win_dirs_loop_ex b baseLength wildCard (e # es) pathCopy results
                       = win_dirs_loop_ex b baseLength wildCard es pathCopy results"
        by (simp only: win_dirs_loop_ex.simps if_P [OF dir] if_P [OF True])
      ultimately show ?thesis by simp
    next
      case False
      from "3.IH"(2) [OF dir False h] obtain p1 r1 where
        g: "GetFilesRecurseEx b (take baseLength pathCopy @ cFileName (find_data e) @ [NATIVE_SLASH b])
              wildCard (listing e) results = Inr (p1, r1)" by auto
      from "3.IH"(3) [OF dir False g refl t] obtain r where
        "win_dirs_loop_ex b baseLength wildCard es p1 r1 = Inr r" by blast
      moreover have "win_dirs_loop_ex b baseLength wildCard (e # es) pathCopy results
                       = win_dirs_loop_ex b baseLength wildCard es p1 r1"
        by (simp only: win_dirs_loop_ex.simps if_P [OF dir] if_not_P [OF False] g sum.case prod.case)
      ultimately show ?thesis by simp
    qed
  qed
next
  case (4 b baseLength wildCard pathCopy results)
  show ?case by simp
next
  case (5 b baseLength wildCard e es pathCopy results)
  from "5.prems" have t: "\<not> asserts_enabled b \<or> list_all stats_succeed es"
    and h: "platform b = Windows \<or> \<not> asserts_enabled b \<or> every_stat_succeeds (listing e)"
    and s: "\<not> asserts_enabled b \<or> fst (posix_stat e)"
    using stats_succeed_entry by auto
  show ?case
  proof (cases "d_type (posix_entry e) AND DT_DIR = DT_DIR")
    case dir: True
    show ?thesis
    proof (cases "c_at (d_name (posix_entry e)) 0 = CHR ''.'' \<and>
            (c_at (d_name (posix_entry e)) 1 = CHR 0x00 \<or>
             (c_at (d_name (posix_entry e)) 1 = CHR ''.'' \<and> c_at (d_name (posix_entry e)) 2 = CHR 0x00))")
      case True
      from "5.IH"(1) [OF dir True t] obtain r where
        "posix_loop_ex b baseLength wildCard es pathCopy results = Inr r" by blast
      moreover have "posix_loop_ex b baseLength wildCard (e # es) pathCopy results
                       = posix_loop_ex b baseLength wildCard es pathCopy results"
        by (simp only: posix_loop_ex.simps if_P [OF dir] if_P [OF True])
      ultimately show ?thesis by simp
    next
      case False
      from "5.IH"(2) [OF dir False h] obtain p1 r1 where
        g: "GetFilesRecurseEx b (take baseLength pathCopy @ d_name (posix_entry e) @ [NATIVE_SLASH b])
              wildCard (listing e) results = Inr (p1, r1)" by auto
      from "5.IH"(3) [OF dir False g refl t] obtain r where
        "posix_loop_ex b baseLength wildCard es p1 r1 = Inr r" by blast
      moreover have "posix_loop_ex b baseLength wildCard (e # es) pathCopy results
                       = posix_loop_ex b baseLength wildCard es p1 r1"
        by (simp only: posix_loop_ex.simps if_P [OF dir] if_not_P [OF False] g sum.case prod.case)
      ultimately show ?thesis by simp
    qed
  next
    case False
    show ?thesis
    proof (cases "IsWildcardMatch b wildCard (d_name (posix_entry e))")
      case True
      from posix_FileInfo_returns [OF s] obtain i where
        i: "posix_FileInfo b (take baseLength pathCopy @ d_name (posix_entry e)) (posix_stat e) = Inr i"
        by blast
      from "5.IH"(4) [OF False True refl i t] obtain r where
        "posix_loop_ex b baseLength wildCard es (take baseLength pathCopy @ d_name (posix_entry e))
           (results @ [i]) = Inr r" by blast
      moreover have "posix_loop_ex b baseLength wildCard (e # es) pathCopy results
                       = posix_loop_ex b baseLength wildCard es
                           (take baseLength pathCopy @ d_name (posix_entry e)) (results @ [i])"
        by (simp only: posix_loop_ex.simps if_not_P [OF False] if_P [OF True] Let_def i sum.case)
      ultimately show ?thesis by simp
    next
      case nomatch: False
      from "5.IH"(5) [OF False nomatch t] obtain r where
        "posix_loop_ex b baseLength wildCard es pathCopy results = Inr r" by blast
      moreover have "posix_loop_ex b baseLength wildCard (e # es) pathCopy results
                       = posix_loop_ex b baseLength wildCard es pathCopy results"
        by (simp only: posix_loop_ex.simps if_not_P [OF False] if_not_P [OF nomatch])
      ultimately show ?thesis by simp
    qed
  qed
qed

lemma GetFilesRecurseEx_fails:
  "GetFilesRecurseEx b pathCopy w dir r = Inl f \<longrightarrow> f = AssertFailed"
  "win_dirs_loop_ex b n w es p r = Inl f \<longrightarrow> f = AssertFailed"
  "posix_loop_ex b n w es p r = Inl f \<longrightarrow> f = AssertFailed"
proof (induction b pathCopy w dir r and b n w es p r and b n w es p r
       rule: GetFilesRecurseEx_win_dirs_loop_ex_posix_loop_ex.induct)
  case (1 b pathCopy wildCard dir results)
  show ?case
  proof
    assume a: "GetFilesRecurseEx b pathCopy wildCard dir results = Inl f"
    show "f = AssertFailed"
    proof (cases "platform b = Windows")
      case True
      show ?thesis
      proof (cases dir)
        case None
        with True a show ?thesis by (simp add: GetFilesRecurseEx.simps)
      next
        case (Some es)
        show ?thesis
        proof (cases es)
          case Nil
          with True Some a show ?thesis by (simp add: GetFilesRecurseEx.simps)
        next
          case (Cons e es')
          from a True Some Cons have
            "win_dirs_loop_ex b (length pathCopy) wildCard (e # es') (pathCopy @ ''*'') results = Inl f"
            by (auto simp: GetFilesRecurseEx.simps split: sum.splits)
          with "1.IH"(1) [OF True Some Cons] show ?thesis by blast
        qed
      qed
    next
      case False
      show ?thesis
      proof (cases dir)
        case None
        with False a show ?thesis by (simp add: GetFilesRecurseEx.simps)
      next
        case (Some es)
        with False a "1.IH"(2) [OF False Some] show ?thesis by (simp add: GetFilesRecurseEx.simps)
      qed
    qed
  qed
next
  case (2 b baseLength wildCard pathCopy results)
  show ?case by simp
next
  case (3 b baseLength wildCard e es pathCopy results)
  show ?case
  proof
    assume a: "win_dirs_loop_ex b baseLength wildCard (e # es) pathCopy results = Inl f"
    show "f = AssertFailed"
    proof (cases "dwFileAttributes (find_data e) AND FILE_ATTRIBUTE_DIRECTORY \<noteq> 0")
      case False
      from a have "win_dirs_loop_ex b baseLength wildCard es pathCopy results = Inl f"
        by (simp only: win_dirs_loop_ex.simps if_not_P [OF False])
      with "3.IH"(4) [OF False] show ?thesis by blast
    next
      case dir: True
      show ?thesis
      proof (cases "c_at (cFileName (find_data e)) 0 = CHR ''.'' \<and>
              (c_at (cFileName (find_data e)) 1 = CHR ''.'' \<or> c_at (cFileName (find_data e)) 1 = CHR 0x00)")
        case True
        from a have "win_dirs_loop_ex b baseLength wildCard es pathCopy results = Inl f"
          by (simp only: win_dirs_loop_ex.simps if_P [OF dir] if_P [OF True])
        with "3.IH"(1) [OF dir True] show ?thesis by blast
      next
        case False
        from a have c: "(case GetFilesRecurseEx b
                          (take baseLength pathCopy @ cFileName (find_data e) @ [NATIVE_SLASH b])
                          wildCard (listing e) results of
                     Inl f \<Rightarrow> Inl f
                   | Inr (pathCopy', results') \<Rightarrow> win_dirs_loop_ex b baseLength wildCard es pathCopy' results')
                 = Inl f"
          by (simp only: win_dirs_loop_ex.simps if_P [OF dir] if_not_P [OF False])
        show ?thesis
        proof (cases "GetFilesRecurseEx b
                          (take baseLength pathCopy @ cFileName (find_data e) @ [NATIVE_SLASH b])
                          wildCard (listing e) results")
          case (Inl g)
          with c have "g = f" by simp
          with Inl "3.IH"(2) [OF dir False] show ?thesis by blast
        next
          case (Inr pr)
          obtain p1 r1 where pr: "pr = (p1, r1)" by (cases pr)
          from c Inr pr have "win_dirs_loop_ex b baseLength wildCard es p1 r1 = Inl f" by simp
          with "3.IH"(3) [OF dir False Inr [unfolded pr] refl] show ?thesis by blast
        qed
      qed
    qed
  qed
next
  case (4 b baseLength wildCard pathCopy results)
  show ?case by simp
next
  case (5 b baseLength wildCard e es pathCopy results)
  show ?case
  proof
    assume a: "posix_loop_ex b baseLength wildCard (e # es) pathCopy results = Inl f"
    show "f = AssertFailed"
    proof (cases "d_type (posix_entry e) AND DT_DIR = DT_DIR")
      case dir: True
      show ?thesis
      proof (cases "c_at (d_name (posix_entry e)) 0 = CHR ''.'' \<and>
              (c_at (d_name (posix_entry e)) 1 = CHR 0x00 \<or>
               (c_at (d_name (posix_entry e)) 1 = CHR ''.'' \<and> c_at (d_name (posix_entry e)) 2 = CHR 0x00))")
        case True
        from a have "posix_loop_ex b baseLength wildCard es pathCopy results = Inl f"
          by (simp only: posix_loop_ex.simps if_P [OF dir] if_P [OF True])
        with "5.IH"(1) [OF dir True] show ?thesis by blast
      next
        case False
        from a have c: "(case GetFilesRecurseEx b
                          (take baseLength pathCopy @ d_name (posix_entry e) @ [NATIVE_SLASH b])
                          wildCard (listing e) results of
                     Inl f \<Rightarrow> Inl f
                   | Inr (pathCopy', results') \<Rightarrow> posix_loop_ex b baseLength wildCard es pathCopy' results')
                 = Inl f"
          by (simp only: posix_loop_ex.simps if_P [OF dir] if_not_P [OF False])
        show ?thesis
        proof (cases "GetFilesRecurseEx b
                          (take baseLength pathCopy @ d_name (posix_entry e) @ [NATIVE_SLASH b])
                          wildCard (listing e) results")
          case (Inl g)
          with c have "g = f" by simp
          with Inl "5.IH"(2) [OF dir False] show ?thesis by blast
        next
          case (Inr pr)
          obtain p1 r1 where pr: "pr = (p1, r1)" by (cases pr)
          from c Inr pr have "posix_loop_ex b baseLength wildCard es p1 r1 = Inl f" by simp
          with "5.IH"(3) [OF dir False Inr [unfolded pr] refl] show ?thesis by blast
        qed
      qed
    next
      case False
      show ?thesis
      proof (cases "IsWildcardMatch b wildCard (d_name (posix_entry e))")
        case True
        from a have c: "(case posix_FileInfo b (take baseLength pathCopy @ d_name (posix_entry e)) (posix_stat e) of
                     Inl f \<Rightarrow> Inl f
                   | Inr newInfo \<Rightarrow>
                       posix_loop_ex b baseLength wildCard es
                         (take baseLength pathCopy @ d_name (posix_entry e)) (results @ [newInfo]))
                 = Inl f"
          by (simp only: posix_loop_ex.simps if_not_P [OF False] if_P [OF True] Let_def)
        show ?thesis
        proof (cases "posix_FileInfo b (take baseLength pathCopy @ d_name (posix_entry e)) (posix_stat e)")
          case (Inl g)
          with c have "g = f" by simp
          with posix_FileInfo_fails [OF Inl] show ?thesis by simp
        next
          case (Inr i)
          with c have "posix_loop_ex b baseLength wildCard es
                         (take baseLength pathCopy @ d_name (posix_entry e)) (results @ [i]) = Inl f"
            by simp
          with "5.IH"(4) [OF False True refl Inr] show ?thesis by blast
        qed
      next
        case nomatch: False
        from a have "posix_loop_ex b baseLength wildCard es pathCopy results = Inl f"
          by (simp only: posix_loop_ex.simps if_not_P [OF False] if_not_P [OF nomatch])
        with "5.IH"(5) [OF False nomatch] show ?thesis by blast
      qed
    qed
  qed
qed

lemma GetFilesEx_returns:
  assumes "platform b = Windows \<or> \<not> asserts_enabled b \<or> every_stat_succeeds dir"
  shows "\<exists>r. GetFilesEx b path wildCard recurse dir results = Inr r"
proof (cases recurse)
  case True
  from GetFilesRecurseEx_returns(1) [OF assms] obtain r where
    "GetFilesRecurseEx b (EnsureTrailingSlash b path) wildCard dir results = Inr r" by blast
  with True show ?thesis by (simp add: GetFilesEx_def Let_def)
next
  case False
  have "\<exists>r. GetFilesNoRecurseEx b path wildCard dir results = Inr r"
  proof (cases "platform b = Windows")
    case True
    then show ?thesis
      by (auto simp: GetFilesNoRecurseEx_def Let_def split: option.splits list.splits
               simp del: win_files_loop_ex.simps)
  next
    case w: False
    show ?thesis
    proof (cases dir)
      case None
      with w show ?thesis by (simp add: GetFilesNoRecurseEx_def)
    next
      case (Some es)
      with assms w have "\<not> asserts_enabled b \<or> list_all stats_succeed es"
        by (simp add: every_stat_succeeds_def)
      from posix_files_loop_ex_returns [OF this] obtain r where
        "posix_files_loop_ex b (length (EnsureTrailingSlash b path)) wildCard es
           (EnsureTrailingSlash b path) results = Inr r" by blast
      with w Some show ?thesis by (simp add: GetFilesNoRecurseEx_def Let_def)
    qed
  qed
  with False show ?thesis by (auto simp: GetFilesEx_def Let_def)
qed

lemma GetFilesEx_fails:
  assumes "GetFilesEx b path wildCard recurse dir results = Inl f"
  shows "f = AssertFailed"
proof (cases recurse)
  case True
  with assms have "GetFilesRecurseEx b (EnsureTrailingSlash b path) wildCard dir results = Inl f"
    by (auto simp: GetFilesEx_def Let_def map_sum_def split: sum.splits)
  with GetFilesRecurseEx_fails(1) show ?thesis by blast
next
  case False
  with assms have "GetFilesNoRecurseEx b path wildCard dir results = Inl f"
    by (auto simp: GetFilesEx_def Let_def split: sum.splits)
  then show ?thesis
    using posix_files_loop_ex_fails
    by (auto simp: GetFilesNoRecurseEx_def Let_def map_sum_def
             split: option.splits list.splits sum.splits if_splits
             simp del: posix_files_loop_ex.simps win_files_loop_ex.simps)
qed

lemma GetFilesEx_appends:
  assumes a: "GetFilesEx b path wildCard recurse dir resultsEx = Inr (ret, resultsEx')"
  shows "\<exists>new. resultsEx' = resultsEx @ new \<and> ret = (new \<noteq> [])"
proof (cases recurse)
  case True
  with a obtain p' where
    "GetFilesRecurseEx b (EnsureTrailingSlash b path) wildCard dir resultsEx = Inr (p', resultsEx')"
    and r: "ret = (length resultsEx' \<noteq> length resultsEx)"
    by (auto simp: GetFilesEx_def Let_def map_sum_def split: sum.splits)
  with GetFilesRecurseEx_appends(1) obtain xs where "resultsEx' = resultsEx @ xs" by blast
  with r show ?thesis by auto
next
  case False
  with a have n: "GetFilesNoRecurseEx b path wildCard dir resultsEx = Inr resultsEx'"
    and r: "ret = (length resultsEx' \<noteq> length resultsEx)"
    by (auto simp: GetFilesEx_def Let_def split: sum.splits)
  have "\<exists>xs. resultsEx' = resultsEx @ xs"
  proof (cases "platform b = Windows")
    case True
    have "\<exists>xs. snd (win_files_loop_ex b (length (EnsureTrailingSlash b path)) wildCard es
                       (EnsureTrailingSlash b path @ ''*'') resultsEx) = resultsEx @ xs" for es
      by (rule win_files_loop_ex_appends)
    with n True show ?thesis
      by (auto simp: GetFilesNoRecurseEx_def Let_def split: option.splits list.splits
               simp del: win_files_loop_ex.simps)
  next
    case False
    with n posix_files_loop_ex_appends show ?thesis
      by (auto simp: GetFilesNoRecurseEx_def Let_def map_sum_def split: option.splits sum.splits
               simp del: posix_files_loop_ex.simps)
  qed
  with r show ?thesis by auto
qed

text \<open>
  C10. \<^verbatim>\<open>GetFiles\<close> returns the results it was given followed by the entries it
  appended, and returns true exactly when it appended one. So does \<^verbatim>\<open>GetFilesEx\<close>,
  in every build and on every listing but one case, in which it does not return:
  a build with assertions, on Linux or macOS, where a \<^verbatim>\<open>stat\<close> fails, stops at
  \<^verbatim>\<open>VERIFY( stat( pathCopy.Get(), &info ) == 0 )\<close>. A build without assertions goes on
  there, and the entry it appends holds what the unfilled \<^verbatim>\<open>info\<close> held.
\<close>

theorem GetFiles_only_append:
  "(\<exists>new. GetFiles b path wildCard recurse dir results = (new \<noteq> [], results @ new)) \<and>
   ((\<exists>new. GetFilesEx b path wildCard recurse dir resultsEx = Inr (new \<noteq> [], resultsEx @ new)) \<or>
    GetFilesEx b path wildCard recurse dir resultsEx = Inl AssertFailed \<and>
    asserts_enabled b \<and> platform b \<noteq> Windows \<and> \<not> every_stat_succeeds dir)"
proof (intro conjI)
  show "\<exists>new. GetFiles b path wildCard recurse dir results = (new \<noteq> [], results @ new)"
  proof (cases recurse)
    case True
    obtain xs where "snd (GetFilesRecurse b (EnsureTrailingSlash b path) wildCard dir results) = results @ xs"
      using GetFilesRecurse_appends(1) by blast
    with True show ?thesis by (auto simp: GetFiles_def Let_def)
  next
    case False
    have "\<exists>xs. GetFilesNoRecurse b path wildCard dir results = results @ xs"
      using win_files_loop_appends posix_files_loop_appends
      by (simp add: GetFilesNoRecurse_def Let_def split: option.splits list.splits
               del: win_files_loop.simps posix_files_loop.simps)
    with False show ?thesis by (auto simp: GetFiles_def Let_def)
  qed
next
  show "(\<exists>new. GetFilesEx b path wildCard recurse dir resultsEx = Inr (new \<noteq> [], resultsEx @ new)) \<or>
        GetFilesEx b path wildCard recurse dir resultsEx = Inl AssertFailed \<and>
        asserts_enabled b \<and> platform b \<noteq> Windows \<and> \<not> every_stat_succeeds dir"
  proof (cases "GetFilesEx b path wildCard recurse dir resultsEx")
    case (Inr r)
    obtain ret resultsEx' where r: "r = (ret, resultsEx')" by (cases r)
    from GetFilesEx_appends [OF Inr [unfolded r]] obtain new where
      "resultsEx' = resultsEx @ new" "ret = (new \<noteq> [])" by blast
    with Inr r show ?thesis by blast
  next
    case (Inl f)
    from GetFilesEx_fails [OF Inl] have f: "f = AssertFailed" .
    have "\<not> (platform b = Windows \<or> \<not> asserts_enabled b \<or> every_stat_succeeds dir)"
    proof
      assume "platform b = Windows \<or> \<not> asserts_enabled b \<or> every_stat_succeeds dir"
      from GetFilesEx_returns [OF this, of path wildCard recurse resultsEx] Inl show False by simp
    qed
    with Inl f show ?thesis by simp
  qed
qed

theorem GetFiles_only_append_witness:
  "GetFilesEx linux_release ''src'' ''*'' True (example_listing ''sub'')
       [\<lparr>m_Name = ''old'', m_Attributes = 0, m_LastWriteTime = 0, m_Size = 0\<rparr>]
     = Inr (True,
            [\<lparr>m_Name = ''old'', m_Attributes = 0, m_LastWriteTime = 0, m_Size = 0\<rparr>,
             \<lparr>m_Name = ''src/sub/a.cpp'', m_Attributes = S_IFREG OR 0x1A4,
               m_LastWriteTime = 2000000005, m_Size = 3\<rparr>,
             \<lparr>m_Name = ''src/b.h'', m_Attributes = S_IFREG OR 0x1A4,
               m_LastWriteTime = 2000000005, m_Size = 3\<rparr>]) \<and>
   GetFilesEx linux_release ''src'' ''*'' False dangling_listing []
     = Inr (True,
            [\<lparr>m_Name = ''src/broken'', m_Attributes = 0x7F21,
               m_LastWriteTime = 1000000004, m_Size = 77\<rparr>]) \<and>
   GetFilesEx linux_debug ''src'' ''*'' False dangling_listing [] = Inl AssertFailed \<and>
   asserts_enabled linux_debug \<and> platform linux_debug = Linux \<and>
   every_stat_succeeds dangling_listing = False \<and>
   (\<exists>new. GetFiles linux_release ''src'' ''*'' True (example_listing ''sub'') [''old'']
            = (new \<noteq> [], [''old''] @ new))"
proof -
  have e: "GetFilesEx linux_release ''src'' ''*'' True (example_listing ''sub'')
       [\<lparr>m_Name = ''old'', m_Attributes = 0, m_LastWriteTime = 0, m_Size = 0\<rparr>]
     = Inr (True,
            [\<lparr>m_Name = ''old'', m_Attributes = 0, m_LastWriteTime = 0, m_Size = 0\<rparr>,
             \<lparr>m_Name = ''src/sub/a.cpp'', m_Attributes = S_IFREG OR 0x1A4,
               m_LastWriteTime = 2000000005, m_Size = 3\<rparr>,
             \<lparr>m_Name = ''src/b.h'', m_Attributes = S_IFREG OR 0x1A4,
               m_LastWriteTime = 2000000005, m_Size = 3\<rparr>])"
    by (simp add: GetFilesEx_def GetFilesRecurseEx.simps posix_FileInfo_def nanoseconds_def
        linux_release_def eval_entries)
  have d: "GetFilesEx linux_release ''src'' ''*'' False dangling_listing []
     = Inr (True,
            [\<lparr>m_Name = ''src/broken'', m_Attributes = 0x7F21,
               m_LastWriteTime = 1000000004, m_Size = 77\<rparr>])"
    by (simp add: GetFilesEx_def GetFilesNoRecurseEx_def posix_FileInfo_def nanoseconds_def
        linux_release_def dangling_listing_def DT_LNK_def eval_entries)
  have a: "asserts_enabled linux_debug" "platform linux_debug = Linux"
    by (simp_all add: linux_debug_def linux_release_def)
  have s: "every_stat_succeeds dangling_listing = False"
    by (simp add: every_stat_succeeds_def dangling_listing_def eval_entries)
  have "\<not> (\<exists>new. GetFilesEx linux_debug ''src'' ''*'' False dangling_listing []
                  = Inr (new \<noteq> [], [] @ new))"
    by (simp add: GetFilesEx_def GetFilesNoRecurseEx_def posix_FileInfo_def
        linux_debug_def linux_release_def dangling_listing_def DT_LNK_def eval_entries)
  with GetFiles_only_append [of linux_debug "''src''" "''*''" False dangling_listing "[]" "[]"]
  have f: "GetFilesEx linux_debug ''src'' ''*'' False dangling_listing [] = Inl AssertFailed"
    by blast
  from GetFiles_only_append [of linux_release "''src''" "''*''" True "example_listing ''sub''" "[''old'']"
         "[\<lparr>m_Name = ''old'', m_Attributes = 0, m_LastWriteTime = 0, m_Size = 0\<rparr>]"] e d a s f
  show ?thesis by blast
qed

text \<open>
  C1, evaluated where the Windows variant departs from it. The listing of \<^verbatim>\<open>src\<close>
  holds the sub-directory \<^verbatim>\<open>..x\<close> with the file \<^verbatim>\<open>a.cpp\<close> in it, and the file
  \<^verbatim>\<open>b.h\<close>. The Windows variant skips every directory whose name starts with two
  dots and does not find \<^verbatim>\<open>a.cpp\<close>; the Linux and macOS variant, which also tests
  that the name ends after the second dot, finds both files.
\<close>

theorem GetFiles_dotdot_prefix:
  "GetFiles windows_release ''src'' ''*'' True (example_listing ''..x'') []
     = (True, [''src'' @ [CHR 0x5C] @ ''b.h'']) \<and>
   GetFiles linux_release ''src'' ''*'' True (example_listing ''..x'') []
     = (True, [''src/..x/a.cpp'', ''src/b.h''])"
  by (simp add: GetFiles_def GetFilesRecurse.simps windows_release_def linux_release_def eval_entries)

text \<open>With a sub-directory named \<^verbatim>\<open>sub\<close> the Windows variant finds both files.\<close>

lemma GetFiles_plain_name:
  "GetFiles windows_release ''src'' ''*'' True (example_listing ''sub'') []
     = (True, [''src'' @ [CHR 0x5C] @ ''sub'' @ [CHR 0x5C] @ ''a.cpp'', ''src'' @ [CHR 0x5C] @ ''b.h''])"
  by (simp add: GetFiles_def GetFilesRecurse.simps windows_release_def linux_release_def eval_entries)

text \<open>
  On Linux and macOS an entry counts as a directory when its type has the bit of
  \<^verbatim>\<open>DT_DIR\<close>, which the types of sockets and block devices have too: the socket
  \<^verbatim>\<open>x.sock\<close> matches the pattern, is not a directory and is not listed.
\<close>

lemma GetFiles_socket:
  "GetFiles linux_release ''src'' ''*'' False socket_listing [] = (True, [''src/b.h''])"
  by (simp add: GetFiles_def GetFilesNoRecurse_def socket_listing_def DT_SOCK_def linux_release_def
      eval_entries)

subsection \<open>The functions without a Linux or macOS implementation\<close>

text \<open>
  C9. On Linux and macOS, \<^verbatim>\<open>FileCopy\<close>, \<^verbatim>\<open>CreateTempPath\<close>, \<^verbatim>\<open>SetFileLastWriteTime\<close>
  and \<^verbatim>\<open>SetReadOnly\<close> return false for every input and make no system call: the
  state of the operating system, with its record of the calls made, is the one
  they were given, and \<^verbatim>\<open>CreateTempPath\<close> leaves its output string as it was.
\<close>

theorem stubs_fail_without_system_call:
  "platform b \<noteq> Windows \<Longrightarrow>
     FileCopy b srcFileName dstFileName allowOverwrite s = (False, s) \<and>
     CreateTempPath b tempPrefix path s = ((False, path), s) \<and>
     SetFileLastWriteTime b fileName fileTime s = (False, s) \<and>
     SetReadOnly b fileName readOnly s = (False, s)"
  by (simp add: FileCopy_def CreateTempPath_def SetFileLastWriteTime_def SetReadOnly_def)

theorem stubs_fail_without_system_call_witness:
  "platform linux_release \<noteq> Windows \<and>
   FileCopy linux_release ''a'' ''b'' True empty_os = (False, empty_os) \<and>
   CreateTempPath linux_release ''fb'' ''old'' empty_os = ((False, ''old''), empty_os) \<and>
   SetFileLastWriteTime linux_release ''a'' 7 empty_os = (False, empty_os) \<and>
   SetReadOnly linux_release ''a'' True empty_os = (False, empty_os)"
proof -
  have h: "platform linux_release \<noteq> Windows" by (simp add: linux_release_def)
  show ?thesis
    using h stubs_fail_without_system_call
      [OF h, of "''a''" "''b''" True empty_os "''fb''" "''old''" "''a''" 7 True]
    by simp
qed

subsection \<open>File types in \<^verbatim>\<open>st_mode\<close>\<close>

lemma S_IFREG_not_dir: "m AND S_IFMT = S_IFREG \<Longrightarrow> m AND S_IFDIR \<noteq> S_IFDIR"
proof -
  assume a: "m AND S_IFMT = S_IFREG"
  have "m AND S_IFDIR = (m AND S_IFMT) AND S_IFDIR"
    by (simp add: S_IFMT_def S_IFDIR_def and.assoc)
  also have "\<dots> = 0" by (simp add: a) (simp add: S_IFREG_def S_IFDIR_def)
  finally show ?thesis by (simp add: S_IFDIR_def)
qed

lemma S_IFDIR_is_dir: "m AND S_IFMT = S_IFDIR \<Longrightarrow> m AND S_IFDIR = S_IFDIR"
proof -
  assume a: "m AND S_IFMT = S_IFDIR"
  have "m AND S_IFDIR = (m AND S_IFMT) AND S_IFDIR"
    by (simp add: S_IFMT_def S_IFDIR_def and.assoc)
  also have "\<dots> = S_IFDIR" by (simp add: a)
  finally show ?thesis .
qed

lemma join64_halves: "join64 (ucast x) (ucast (drop_bit 32 x)) = (x :: 64 word)"
  unfolding join64_def
  by (rule bit_word_eqI) (auto simp: bit_simps)

subsection \<open>Path resolution\<close>

text \<open>
  A path that resolves to a node resolves to the same node when it is the path of
  a node to create, and nodes added to the file system do not change what the
  paths of the old ones resolve to.
\<close>

lemma walk_dot: "walk pl ns cur (cs @ [''.'']) = Inr k \<Longrightarrow> walk pl ns cur cs = Inr k"
  by (induction cs arbitrary: cur) (auto split: option.splits if_splits)

lemma resolve_imp_resolve_new: "resolve pl ns p = Inr k \<Longrightarrow> resolve_new pl ns p = Inr k"
  by (auto simp: resolve_def resolve_new_def split: if_splits dest: walk_dot)

lemma walk_mono:
  "walk pl ns cur cs = Inr k \<Longrightarrow> node_at ns k' = None \<Longrightarrow> walk pl (ns(k' \<mapsto> d)) cur cs = Inr k"
  by (induction cs arbitrary: cur) (auto simp: node_at_def split: option.splits if_splits)

lemma resolve_new_mono:
  "resolve_new pl ns p = Inr k \<Longrightarrow> node_at ns k' = None \<Longrightarrow> resolve_new pl (ns(k' \<mapsto> d)) p = Inr k"
  by (auto simp: resolve_new_def split: if_splits intro: walk_mono)

lemma grown_refl: "grown pl ns ns"
  by (simp add: grown_def)

lemma grown_trans: "grown pl a b \<Longrightarrow> grown pl b c \<Longrightarrow> grown pl a c"
  unfolding grown_def by (meson map_le_trans)

lemma node_at_le: "ns \<subseteq>\<^sub>m ns' \<Longrightarrow> node_at ns k = Some i \<Longrightarrow> node_at ns' k = Some i"
  by (auto simp: node_at_def map_le_def dom_def split: if_splits)

lemma walk_le: "walk pl ns cur cs = Inr k \<Longrightarrow> ns \<subseteq>\<^sub>m ns' \<Longrightarrow> walk pl ns' cur cs = Inr k"
proof (induction cs arbitrary: cur)
  case Nil
  then show ?case by simp
next
  case (Cons c cs)
  from Cons.prems(1) obtain i where i: "node_at ns cur = Some i" "is_directory pl i"
    by (auto split: option.splits if_splits)
  with Cons.prems(2) have i': "node_at ns' cur = Some i" by (simp add: node_at_le)
  from Cons.prems(1) i have
    "(if c = ''.'' then walk pl ns cur cs
      else if c = ''..'' then walk pl ns (butlast cur) cs else walk pl ns (cur @ [c]) cs) = Inr k"
    by simp
  then have
    "(if c = ''.'' then walk pl ns' cur cs
      else if c = ''..'' then walk pl ns' (butlast cur) cs else walk pl ns' (cur @ [c]) cs) = Inr k"
    using Cons.IH Cons.prems(2) by (auto split: if_splits)
  with i i' show ?case by simp
qed

lemma present_le: "present pl ns p \<Longrightarrow> ns \<subseteq>\<^sub>m ns' \<Longrightarrow> present pl ns' p"
proof -
  assume p: "present pl ns p" and le: "ns \<subseteq>\<^sub>m ns'"
  from p obtain k i where k: "resolve_new pl ns p = Inr k" "node_at ns k = Some i"
    by (auto simp: present_def split: sum.splits)
  then have "resolve_new pl ns' p = Inr k"
    using le by (auto simp: resolve_new_def split: if_splits intro: walk_le)
  moreover have "node_at ns' k = Some i" using k le by (simp add: node_at_le)
  ultimately show ?thesis by (simp add: present_def)
qed

subsection \<open>FileExists\<close>

text \<open>
  C3, as stated, fails on Linux and macOS: \<^verbatim>\<open>d\<close> is a directory that exists, and
  \<^verbatim>\<open>FileExists\<close> returns false for it.
\<close>

theorem FileExists_directory_counterexample:
  "lookup Linux (nodes (os_with [([''d''], new_directory 0x1FF)])) ''d'' \<noteq> None \<and>
   \<not> fst (FileExists linux_release ''d'' (os_with [([''d''], new_directory 0x1FF)]))"
  by (simp add: FileExists_def linux_release_def os_with_def empty_os_def sys_stat_def lookup_def
      resolve_def path_components_def is_separator_def node_at_def new_directory_def is_directory_def
      S_IFDIR_def S_IFMT_def called_def)

text \<open>
  C3, amended. On Windows \<^verbatim>\<open>FileExists\<close> returns true exactly for the paths that
  exist, files and directories alike. On Linux and macOS it returns false for a path
  that does not exist, true for a regular file and false for a directory. On every
  platform it leaves the file system as it is.
\<close>

theorem FileExists_by_platform:
  "(platform b = Windows \<longrightarrow>
      fst (FileExists b fileName s) = (lookup Windows (nodes s) fileName \<noteq> None)) \<and>
   (platform b \<noteq> Windows \<longrightarrow>
      (lookup (platform b) (nodes s) fileName = None \<longrightarrow> \<not> fst (FileExists b fileName s)) \<and>
      (\<forall>i. lookup (platform b) (nodes s) fileName = Some i \<longrightarrow>
           (st_mode (i_stat i) AND S_IFMT = S_IFREG \<longrightarrow> fst (FileExists b fileName s)) \<and>
           (st_mode (i_stat i) AND S_IFMT = S_IFDIR \<longrightarrow> \<not> fst (FileExists b fileName s)))) \<and>
   nodes (snd (FileExists b fileName s)) = nodes s"
  by (auto simp: FileExists_def sys_GetFileAttributes_def sys_stat_def called_def
      S_IFREG_not_dir S_IFDIR_is_dir split: option.splits)

theorem FileExists_by_platform_witness:
  "platform windows_release = Windows \<and>
   lookup Windows (nodes (os_with [([''d''], new_directory 0x1FF)])) ''d'' \<noteq> None \<and>
   fst (FileExists windows_release ''d'' (os_with [([''d''], new_directory 0x1FF)])) \<and>
   platform linux_release \<noteq> Windows \<and>
   lookup Linux (nodes (os_with [([''f''], regular_file 3)])) ''f'' = Some (regular_file 3) \<and>
   st_mode (i_stat (regular_file 3)) AND S_IFMT = S_IFREG \<and>
   fst (FileExists linux_release ''f'' (os_with [([''f''], regular_file 3)])) \<and>
   lookup Linux (nodes (os_with [([''f''], regular_file 3)])) ''g'' = None \<and>
   \<not> fst (FileExists linux_release ''g'' (os_with [([''f''], regular_file 3)]))"
proof -
  have w: "platform windows_release = Windows" and l: "platform linux_release = Linux"
    by (simp_all add: windows_release_def linux_release_def)
  have d: "lookup Windows (nodes (os_with [([''d''], new_directory 0x1FF)])) ''d'' \<noteq> None"
    by (simp add: os_with_def empty_os_def eval_path)
  have f: "lookup Linux (nodes (os_with [([''f''], regular_file 3)])) ''f'' = Some (regular_file 3)"
    by (simp add: os_with_def empty_os_def eval_path)
  have m: "st_mode (i_stat (regular_file 3)) AND S_IFMT = S_IFREG"
    by (simp add: regular_file_def S_IFMT_def S_IFREG_def)
  have g: "lookup Linux (nodes (os_with [([''f''], regular_file 3)])) ''g'' = None"
    by (simp add: os_with_def empty_os_def eval_path)
  show ?thesis
    using w l d f m g
      FileExists_by_platform [of windows_release "''d''" "os_with [([''d''], new_directory 0x1FF)]"]
      FileExists_by_platform [of linux_release "''f''" "os_with [([''f''], regular_file 3)]"]
      FileExists_by_platform [of linux_release "''g''" "os_with [([''f''], regular_file 3)]"]
    by simp
qed

subsection \<open>GetFileInfo\<close>

text \<open>
  C4, as stated, fails on Linux and macOS: \<^verbatim>\<open>f\<close> is a regular file that exists, and
  \<^verbatim>\<open>GetFileInfo\<close> in a build without assertions returns false and leaves \<open>info\<close> as
  it was.
\<close>

theorem GetFileInfo_linux_counterexample:
  "lookup Linux (nodes (os_with [([''f''], regular_file 3)])) ''f'' \<noteq> None \<and>
   fst (GetFileInfo linux_release ''f'' \<lparr>m_Name = [], m_Attributes = 0, m_LastWriteTime = 0, m_Size = 0\<rparr>
          (os_with [([''f''], regular_file 3)]))
     = Inr (False, \<lparr>m_Name = [], m_Attributes = 0, m_LastWriteTime = 0, m_Size = 0\<rparr>)"
  by (simp add: GetFileInfo_def linux_release_def os_with_def empty_os_def eval_path)

text \<open>
  C4, amended. On Windows \<^verbatim>\<open>GetFileInfo\<close> returns false for a path that does not
  exist and leaves \<open>info\<close> as it was; for a path that exists it returns true and
  \<open>info\<close> holds the name, the attributes, and the last-write time and the size
  joined from the two 32-bit halves the system reports, and joining the halves of a
  64-bit value gives that value back. On Linux and macOS \<^verbatim>\<open>GetFileInfo\<close> makes no
  system call and never returns true: it fails its assertion where assertions are
  enabled and returns false otherwise. On every platform it leaves the file system
  as it is.
\<close>

theorem GetFileInfo_by_platform:
  "(platform b = Windows \<longrightarrow>
      (lookup Windows (nodes s) fileName = None \<longrightarrow>
         fst (GetFileInfo b fileName info s) = Inr (False, info)) \<and>
      (\<forall>i. lookup Windows (nodes s) fileName = Some i \<longrightarrow>
         fst (GetFileInfo b fileName info s) =
           Inr (True,
                \<lparr> m_Name = fileName,
                  m_Attributes = dwFileAttributes (i_data i),
                  m_LastWriteTime = join64 (dwLowDateTime (ftLastWriteTime (i_data i)))
                                           (dwHighDateTime (ftLastWriteTime (i_data i))),
                  m_Size = join64 (nFileSizeLow (i_data i)) (nFileSizeHigh (i_data i)) \<rparr>))) \<and>
   (platform b \<noteq> Windows \<longrightarrow>
      GetFileInfo b fileName info s =
        (if asserts_enabled b then Inl AssertFailed else Inr (False, info), s)) \<and>
   nodes (snd (GetFileInfo b fileName info s)) = nodes s \<and>
   join64 (ucast x) (ucast (drop_bit 32 x)) = x"
  by (auto simp: GetFileInfo_def sys_GetFileAttributesEx_def called_def join64_halves
      split: option.splits)

theorem GetFileInfo_by_platform_witness:
  "platform windows_release = Windows \<and>
   lookup Windows (nodes (os_with [([''f''], regular_file 0x500000003)])) ''f''
     = Some (regular_file 0x500000003) \<and>
   fst (GetFileInfo windows_release ''f''
          \<lparr>m_Name = [], m_Attributes = 0, m_LastWriteTime = 0, m_Size = 0\<rparr>
          (os_with [([''f''], regular_file 0x500000003)]))
     = Inr (True, \<lparr>m_Name = ''f'', m_Attributes = FILE_ATTRIBUTE_NORMAL,
                   m_LastWriteTime = join64 9 1,
                   m_Size = join64 (ucast (0x500000003 :: 64 word))
                                   (ucast (drop_bit 32 (0x500000003 :: 64 word)))\<rparr>) \<and>
   join64 (ucast (0x500000003 :: 64 word)) (ucast (drop_bit 32 (0x500000003 :: 64 word))) = 0x500000003 \<and>
   lookup Windows (nodes (os_with [([''f''], regular_file 0x500000003)])) ''g'' = None \<and>
   fst (GetFileInfo windows_release ''g''
          \<lparr>m_Name = [], m_Attributes = 0, m_LastWriteTime = 0, m_Size = 0\<rparr>
          (os_with [([''f''], regular_file 0x500000003)]))
     = Inr (False, \<lparr>m_Name = [], m_Attributes = 0, m_LastWriteTime = 0, m_Size = 0\<rparr>) \<and>
   platform linux_release \<noteq> Windows \<and>
   GetFileInfo linux_release ''f'' \<lparr>m_Name = [], m_Attributes = 0, m_LastWriteTime = 0, m_Size = 0\<rparr>
       (os_with [([''f''], regular_file 0x500000003)])
     = (Inr (False, \<lparr>m_Name = [], m_Attributes = 0, m_LastWriteTime = 0, m_Size = 0\<rparr>),
        os_with [([''f''], regular_file 0x500000003)])"
proof -
  have w: "platform windows_release = Windows"
    and l: "platform linux_release = Linux" "\<not> asserts_enabled linux_release"
    by (simp_all add: windows_release_def linux_release_def)
  have f: "lookup Windows (nodes (os_with [([''f''], regular_file 0x500000003)])) ''f''
             = Some (regular_file 0x500000003)"
    and g: "lookup Windows (nodes (os_with [([''f''], regular_file 0x500000003)])) ''g'' = None"
    by (simp_all add: os_with_def empty_os_def eval_path)
  have d: "i_data (regular_file 0x500000003) =
             \<lparr> dwFileAttributes = FILE_ATTRIBUTE_NORMAL,
               ftLastWriteTime = \<lparr> dwLowDateTime = 9, dwHighDateTime = 1 \<rparr>,
               nFileSizeHigh = ucast (drop_bit 32 (0x500000003 :: 64 word)),
               nFileSizeLow = ucast (0x500000003 :: 64 word) \<rparr>"
    by (simp add: regular_file_def)
  show ?thesis
    using w l f g
      GetFileInfo_by_platform [of windows_release "os_with [([''f''], regular_file 0x500000003)]" "''f''"
        "\<lparr>m_Name = [], m_Attributes = 0, m_LastWriteTime = 0, m_Size = 0\<rparr>" "0x500000003"]
      GetFileInfo_by_platform [of windows_release "os_with [([''f''], regular_file 0x500000003)]" "''g''"
        "\<lparr>m_Name = [], m_Attributes = 0, m_LastWriteTime = 0, m_Size = 0\<rparr>" "0x500000003"]
      GetFileInfo_by_platform [of linux_release "os_with [([''f''], regular_file 0x500000003)]" "''f''"
        "\<lparr>m_Name = [], m_Attributes = 0, m_LastWriteTime = 0, m_Size = 0\<rparr>" "0x500000003"]
    by (simp add: d)
qed

subsection \<open>DirectoryCreate\<close>

lemma mkdir_existing:
  "resolve_new pl (nodes s) p = Inr k \<Longrightarrow> node_at (nodes s) k \<noteq> None \<Longrightarrow>
     sys_mkdir pl p m s = (Some EEXIST, called (Posix_mkdir p m) s)"
  by (simp add: sys_mkdir_def)

lemma walk_errors: "walk pl ns cur cs = Inl e \<Longrightarrow> e = ENOENT \<or> e = ENOTDIR"
  by (induction cs arbitrary: cur) (auto split: option.splits if_splits)

lemma resolve_new_errors: "resolve_new pl ns p = Inl e \<Longrightarrow> e = ENOENT \<or> e = ENOTDIR"
  by (auto simp: resolve_new_def split: if_splits dest: walk_errors)

lemma mkdir_result:
  assumes "sys_mkdir pl p m s = (r, s')" "r = None \<or> r = Some EEXIST"
  shows "\<exists>k. resolve_new pl (nodes s') p = Inr k \<and> node_at (nodes s') k \<noteq> None"
proof (cases "resolve_new pl (nodes s) p")
  case (Inl e)
  with assms resolve_new_errors [OF Inl] show ?thesis
    by (auto simp: sys_mkdir_def Let_def)
next
  case (Inr k)
  show ?thesis
  proof (cases "node_at (nodes s) k")
    case None
    with Inr assms have "nodes s' = (nodes s)(k \<mapsto> new_directory (m AND NOT (umask_value s)))"
      by (auto simp: sys_mkdir_def Let_def called_def split: if_splits)
    with Inr None show ?thesis
      by (auto simp: resolve_new_mono node_at_def)
  next
    case (Some i)
    with Inr assms have "nodes s' = nodes s"
      by (auto simp: sys_mkdir_def Let_def called_def split: if_splits)
    with Inr Some show ?thesis by simp
  qed
qed

lemma CreateDirectory_existing:
  "resolve_new Windows (nodes s) p = Inr k \<Longrightarrow> node_at (nodes s) k \<noteq> None \<Longrightarrow>
     sys_CreateDirectory p s = (Some ERROR_ALREADY_EXISTS, called (CreateDirectory p) s)"
  by (simp add: sys_CreateDirectory_def)

lemma CreateDirectory_result:
  assumes "sys_CreateDirectory p s = (r, s')" "r = None \<or> r = Some ERROR_ALREADY_EXISTS"
  shows "\<exists>k. resolve_new Windows (nodes s') p = Inr k \<and> node_at (nodes s') k \<noteq> None"
proof (cases "resolve_new Windows (nodes s) p")
  case (Inl e)
  with assms show ?thesis
    by (auto simp: sys_CreateDirectory_def Let_def)
next
  case (Inr k)
  show ?thesis
  proof (cases "node_at (nodes s) k")
    case None
    with Inr assms have "nodes s' = (nodes s)(k \<mapsto> new_directory 0)"
      by (auto simp: sys_CreateDirectory_def Let_def called_def split: if_splits)
    with Inr None show ?thesis
      by (auto simp: resolve_new_mono node_at_def)
  next
    case (Some i)
    with Inr assms have "nodes s' = nodes s"
      by (auto simp: sys_CreateDirectory_def Let_def called_def split: if_splits)
    with Inr Some show ?thesis by simp
  qed
qed

lemma DirectoryCreate_on_existing:
  assumes "resolve_new (platform b) (nodes s) path = Inr k" "node_at (nodes s) k \<noteq> None"
  shows "fst (DirectoryCreate b path s) \<and> nodes (snd (DirectoryCreate b path s)) = nodes s"
proof (cases "platform b = Windows")
  case True
  with assms show ?thesis
    by (simp add: DirectoryCreate_def CreateDirectory_existing called_def)
next
  case False
  have "resolve_new (platform b) (nodes (sys_umask 0 s)) path = Inr k"
       "node_at (nodes (sys_umask 0 s)) k \<noteq> None"
    using assms by (simp_all add: sys_umask_def called_def)
  then show ?thesis using False
    by (simp add: DirectoryCreate_def mkdir_existing) (simp add: called_def sys_umask_def)
qed

lemma DirectoryCreate_true:
  assumes "fst (DirectoryCreate b path s)"
  shows "\<exists>k. resolve_new (platform b) (nodes (snd (DirectoryCreate b path s))) path = Inr k \<and>
             node_at (nodes (snd (DirectoryCreate b path s))) k \<noteq> None"
proof (cases "platform b = Windows")
  case True
  obtain r s' where c: "sys_CreateDirectory path s = (r, s')" by (cases "sys_CreateDirectory path s")
  with assms True have "r = None \<or> r = Some ERROR_ALREADY_EXISTS"
    by (auto simp: DirectoryCreate_def split: option.splits if_splits)
  from CreateDirectory_result [OF c this] c True show ?thesis
    by (auto simp: DirectoryCreate_def split: option.splits)
next
  case False
  obtain r s' where c: "sys_mkdir (platform b) path (S_IRWXU OR S_IRWXG OR S_IRWXO) (sys_umask 0 s) = (r, s')"
    by (cases "sys_mkdir (platform b) path (S_IRWXU OR S_IRWXG OR S_IRWXO) (sys_umask 0 s)")
  with assms False have "r = None \<or> r = Some EEXIST"
    by (auto simp: DirectoryCreate_def split: option.splits if_splits)
  from mkdir_result [OF c this] c False show ?thesis
    by (auto simp: DirectoryCreate_def split: option.splits)
qed

text \<open>
  C7. \<^verbatim>\<open>DirectoryCreate\<close> returns true for a path that is a directory already and
  leaves the file system as it is; and after a call that returned true, a second
  call on the same path returns true and leaves the file system as the first call
  left it.
\<close>

theorem DirectoryCreate_idempotent:
  "(\<forall>i. lookup (platform b) (nodes s) path = Some i \<and> is_directory (platform b) i \<longrightarrow>
        fst (DirectoryCreate b path s) \<and> nodes (snd (DirectoryCreate b path s)) = nodes s) \<and>
   (fst (DirectoryCreate b path s) \<longrightarrow>
      fst (DirectoryCreate b path (snd (DirectoryCreate b path s))) \<and>
      nodes (snd (DirectoryCreate b path (snd (DirectoryCreate b path s))))
        = nodes (snd (DirectoryCreate b path s)))"
proof (intro conjI allI impI)
  fix i assume "lookup (platform b) (nodes s) path = Some i \<and> is_directory (platform b) i"
  then obtain k where "resolve (platform b) (nodes s) path = Inr k" "node_at (nodes s) k \<noteq> None"
    by (auto simp: lookup_def split: sum.splits)
  then have "resolve_new (platform b) (nodes s) path = Inr k" "node_at (nodes s) k \<noteq> None"
    by (simp_all add: resolve_imp_resolve_new)
  from DirectoryCreate_on_existing [OF this]
  show "fst (DirectoryCreate b path s)" "nodes (snd (DirectoryCreate b path s)) = nodes s"
    by simp_all
next
  assume "fst (DirectoryCreate b path s)"
  from DirectoryCreate_true [OF this] obtain k where
    "resolve_new (platform b) (nodes (snd (DirectoryCreate b path s))) path = Inr k"
    "node_at (nodes (snd (DirectoryCreate b path s))) k \<noteq> None" by blast
  from DirectoryCreate_on_existing [OF this]
  show "fst (DirectoryCreate b path (snd (DirectoryCreate b path s)))"
       "nodes (snd (DirectoryCreate b path (snd (DirectoryCreate b path s))))
          = nodes (snd (DirectoryCreate b path s))"
    by simp_all
qed

theorem DirectoryCreate_idempotent_witness:
  "fst (DirectoryCreate linux_release ''out'' empty_os) \<and>
   fst (DirectoryCreate linux_release ''out'' (snd (DirectoryCreate linux_release ''out'' empty_os))) \<and>
   nodes (snd (DirectoryCreate linux_release ''out'' (snd (DirectoryCreate linux_release ''out'' empty_os))))
     = nodes (snd (DirectoryCreate linux_release ''out'' empty_os)) \<and>
   lookup (platform windows_release) (nodes (os_with [([''out''], new_directory 0)])) ''out''
     = Some (new_directory 0) \<and>
   is_directory (platform windows_release) (new_directory 0) \<and>
   fst (DirectoryCreate windows_release ''out'' (os_with [([''out''], new_directory 0)])) \<and>
   nodes (snd (DirectoryCreate windows_release ''out'' (os_with [([''out''], new_directory 0)])))
     = nodes (os_with [([''out''], new_directory 0)])"
proof -
  have a: "fst (DirectoryCreate linux_release ''out'' empty_os)"
    by (simp add: DirectoryCreate_def linux_release_def empty_os_def sys_umask_def sys_mkdir_def
        called_def Let_def eval_path)
  have b: "lookup (platform windows_release) (nodes (os_with [([''out''], new_directory 0)])) ''out''
             = Some (new_directory 0)"
    by (simp add: windows_release_def os_with_def empty_os_def eval_path)
  have c: "is_directory (platform windows_release) (new_directory 0)"
    by (simp add: windows_release_def eval_path)
  show ?thesis
    using a b c
      DirectoryCreate_idempotent [of linux_release empty_os "''out''"]
      DirectoryCreate_idempotent [of windows_release "os_with [([''out''], new_directory 0)]" "''out''"]
    by simp
qed

subsection \<open>WorkAroundForWindowsFilePermissionProblem\<close>

text \<open>
  The loop started at attempt \<open>n\<close> ends at the first attempt from \<open>n\<close> on at which
  the file opens or the timer shows more than one second, and it ends only there.
\<close>

lemma WorkAround_loop_ends:
  assumes "opens (n + k) \<or> 1 < elapsed (n + k)"
    and "\<forall>j<k. \<not> opens (n + j) \<and> elapsed (n + j) \<le> 1"
  shows "WorkAround_loop b opens elapsed n =
           Some (if opens (n + k) then Inr Closed
                 else if asserts_enabled b then Inl AssertFailed else Inr GaveUp)"
  using assms
proof (induction k arbitrary: n)
  case 0
  then show ?case by (subst WorkAround_loop.simps) auto
next
  case (Suc k)
  have now: "\<not> opens n" "elapsed n \<le> 1"
    using Suc.prems(2) [rule_format, of 0] by simp_all
  have later: "\<forall>j<k. \<not> opens (Suc n + j) \<and> elapsed (Suc n + j) \<le> 1"
  proof (intro allI impI)
    fix j assume "j < k"
    then have "Suc j < Suc k" by simp
    from Suc.prems(2) [rule_format, OF this]
    show "\<not> opens (Suc n + j) \<and> elapsed (Suc n + j) \<le> 1" by simp
  qed
  have "WorkAround_loop b opens elapsed n = WorkAround_loop b opens elapsed (Suc n)"
    using now by (subst WorkAround_loop.simps) simp
  also have "\<dots> = Some (if opens (Suc n + k) then Inr Closed
                 else if asserts_enabled b then Inl AssertFailed else Inr GaveUp)"
    using Suc.prems(1) later by (intro Suc.IH) simp_all
  finally show ?case by simp
qed

lemma WorkAround_loop_only_ends:
  "WorkAround_loop b opens elapsed n = Some r \<Longrightarrow> \<exists>k. opens (n + k) \<or> 1 < elapsed (n + k)"
proof (induction rule: WorkAround_loop.raw_induct [rotated, consumes 1])
  case (1 loop b opens elapsed n r)
  show ?case
  proof (cases "opens n \<or> 1 < elapsed n")
    case True
    then have "opens (n + 0) \<or> 1 < elapsed (n + 0)" by simp
    then show ?thesis by blast
  next
    case False
    with 1(2) have "loop b opens elapsed (Suc n) = Some r" by (simp split: if_splits)
    from 1(1) [OF this] obtain k where "opens (Suc n + k) \<or> 1 < elapsed (Suc n + k)" by blast
    then have "opens (n + Suc k) \<or> 1 < elapsed (n + Suc k)" by simp
    then show ?thesis by blast
  qed
qed

lemma WorkAround_ends_at_first:
  "1 < elapsed m \<Longrightarrow>
     \<exists>k r. k \<le> m \<and>
       WorkAroundForWindowsFilePermissionProblem b opens elapsed = Some r \<and>
       (\<forall>j<k. \<not> opens j \<and> elapsed j \<le> 1) \<and>
       (if opens k then r = Inr Closed
        else 1 < elapsed k \<and> r = (if asserts_enabled b then Inl AssertFailed else Inr GaveUp))"
proof -
  assume m: "1 < elapsed m"
  define P where "P i = (opens i \<or> 1 < elapsed i)" for i
  define k where "k = (LEAST i. P i)"
  define r where "r = (if opens k then Inr Closed
                       else if asserts_enabled b then Inl AssertFailed else Inr GaveUp)"
  have "P m" using m by (simp add: P_def)
  then have "P k" unfolding k_def by (rule LeastI)
  then have k: "opens k \<or> 1 < elapsed k" by (simp add: P_def)
  have km: "k \<le> m" unfolding k_def using \<open>P m\<close> by (rule Least_le)
  have before: "\<forall>j<k. \<not> opens j \<and> elapsed j \<le> 1"
  proof (intro allI impI)
    fix j assume "j < k"
    then have "\<not> P j" unfolding k_def by (rule not_less_Least)
    then show "\<not> opens j \<and> elapsed j \<le> 1" by (simp add: P_def)
  qed
  have "WorkAround_loop b opens elapsed 0 =
          Some (if opens (0 + k) then Inr Closed
                else if asserts_enabled b then Inl AssertFailed else Inr GaveUp)"
  proof (rule WorkAround_loop_ends)
    show "opens (0 + k) \<or> 1 < elapsed (0 + k)" using k by simp
    show "\<forall>j<k. \<not> opens (0 + j) \<and> elapsed (0 + j) \<le> 1" using before by simp
  qed
  then have ret: "WorkAroundForWindowsFilePermissionProblem b opens elapsed = Some r"
    by (simp add: WorkAroundForWindowsFilePermissionProblem_def r_def)
  have last: "if opens k then r = Inr Closed
              else 1 < elapsed k \<and> r = (if asserts_enabled b then Inl AssertFailed else Inr GaveUp)"
    using k by (cases "opens k") (simp_all add: r_def)
  from km ret before last show ?thesis by blast
qed

text \<open>
  C8. If the timer shows more than one second at some reading \<open>m\<close>, the function
  returns, for every sequence of results of \<^verbatim>\<open>Open\<close>, after at most \<open>m + 1\<close>
  attempts: at the first attempt \<open>k\<close> at which the file opens or the timer shows
  more than one second. It closes the file when the file opened, and gives up
  otherwise (failing its assertion where assertions are enabled).
\<close>

theorem WorkAround_returns:
  "1 < elapsed m \<Longrightarrow>
     \<exists>k r. k \<le> m \<and>
       WorkAroundForWindowsFilePermissionProblem b opens elapsed = Some r \<and>
       (\<forall>j<k. \<not> opens j \<and> elapsed j \<le> 1) \<and>
       (if opens k then r = Inr Closed
        else 1 < elapsed k \<and> r = (if asserts_enabled b then Inl AssertFailed else Inr GaveUp))"
  by (rule WorkAround_ends_at_first)

theorem WorkAround_returns_witness:
  "1 < (\<lambda>n. real (Suc n)) 1 \<and>
   WorkAroundForWindowsFilePermissionProblem windows_release (\<lambda>n. False) (\<lambda>n. real (Suc n))
     = Some (Inr GaveUp)"
proof -
  have h: "1 < (\<lambda>n. real (Suc n)) 1" by simp
  have "\<not> asserts_enabled windows_release" by (simp add: windows_release_def)
  with h WorkAround_returns [where elapsed = "\<lambda>n. real (Suc n)" and m = 1
         and b = windows_release and opens = "\<lambda>n. False", OF h]
  show ?thesis by auto
qed

text \<open>
  The hypothesis on the timer is needed: while the file does not open, the loop ends
  only by the timer. Where every \<^verbatim>\<open>Thread::Sleep( 1 )\<close> lets a millisecond pass, the
  timer shows more than one second at the reading after the 1001st sleep at the
  latest.
\<close>

lemma WorkAround_needs_the_clock:
  "\<forall>n. \<not> opens n \<and> elapsed n \<le> 1 \<Longrightarrow>
     WorkAroundForWindowsFilePermissionProblem b opens elapsed = None"
proof (rule ccontr)
  assume a: "\<forall>n. \<not> opens n \<and> elapsed n \<le> 1"
    and "WorkAroundForWindowsFilePermissionProblem b opens elapsed \<noteq> None"
  then obtain r where "WorkAround_loop b opens elapsed 0 = Some r"
    by (auto simp: WorkAroundForWindowsFilePermissionProblem_def)
  from WorkAround_loop_only_ends [OF this] obtain k where "opens k \<or> 1 < elapsed k" by auto
  moreover from a have "\<not> opens k \<and> elapsed k \<le> 1" by blast
  ultimately show False by simp
qed

lemma WorkAround_at_most_1001_attempts:
  assumes "\<forall>n. real (Suc n) / 1000 \<le> elapsed n"
  shows "\<exists>k r. k \<le> 1000 \<and> WorkAroundForWindowsFilePermissionProblem b opens elapsed = Some r \<and>
           (\<forall>j<k. \<not> opens j \<and> elapsed j \<le> 1)"
proof -
  from assms have "real (Suc 1000) / 1000 \<le> elapsed 1000" by blast
  then have "1 < elapsed 1000" by simp
  from WorkAround_ends_at_first [where elapsed = elapsed and m = 1000 and b = b and opens = opens, OF this]
  show ?thesis by blast
qed

subsection \<open>Retries\<close>



















subsection \<open>EnsurePathExists\<close>

text \<open>
  What \<^verbatim>\<open>DirectoryExists\<close> and \<^verbatim>\<open>DirectoryCreate\<close> do to the file system, and the
  invariant of the loop: the file system only grows by directories, and every level
  visited names a node from then on.
\<close>

lemma levels_example: "levels linux_release ''/a/b/c'' = [''/a'', ''/a/b'', ''/a/b/c'']"
  by (simp add: levels_def first_level_start_def linux_release_def slash_terminated_def c_at_def
      Find_def slashes_from.simps)

lemma DirectoryExists_nodes: "nodes (snd (DirectoryExists b p s)) = nodes s"
  by (auto simp: DirectoryExists_def sys_GetFileAttributes_def sys_stat_def called_def
      split: option.splits)

lemma DirectoryExists_present:
  "fst (DirectoryExists b p s) \<Longrightarrow> present (platform b) (nodes s) p"
proof -
  assume "fst (DirectoryExists b p s)"
  then have "lookup (platform b) (nodes s) p \<noteq> None"
    by (auto simp: DirectoryExists_def sys_GetFileAttributes_def sys_stat_def called_def
        split: option.splits if_splits)
  then obtain k where "resolve (platform b) (nodes s) p = Inr k" "node_at (nodes s) k \<noteq> None"
    by (auto simp: lookup_def split: sum.splits)
  then show ?thesis by (simp add: present_def resolve_imp_resolve_new)
qed

lemma is_directory_new:
  "is_directory pl (new_directory (S_IRWXU OR S_IRWXG OR S_IRWXO))"
  "is_directory Windows (new_directory m)"
  by (simp_all add: is_directory_def new_directory_def S_IRWXU_def S_IRWXG_def S_IRWXO_def
      S_IFDIR_def S_IFMT_def FILE_ATTRIBUTE_DIRECTORY_def)

lemma grown_new:
  "node_at ns k = None \<Longrightarrow> is_directory pl d \<Longrightarrow> grown pl ns (ns(k \<mapsto> d))"
  by (auto simp: grown_def map_le_def node_at_def split: if_splits)

lemma DirectoryCreate_grown: "grown (platform b) (nodes s) (nodes (snd (DirectoryCreate b p s)))"
proof (cases "platform b = Windows")
  case True
  then show ?thesis
    by (auto simp: DirectoryCreate_def sys_CreateDirectory_def Let_def called_def grown_refl
        is_directory_new grown_new split: sum.splits option.splits)
next
  case False
  then show ?thesis
    by (auto simp: DirectoryCreate_def sys_mkdir_def sys_umask_def Let_def called_def grown_refl
        is_directory_new grown_new split: sum.splits option.splits)
qed

lemma DirectoryCreate_present:
  "fst (DirectoryCreate b p s) \<Longrightarrow> present (platform b) (nodes (snd (DirectoryCreate b p s))) p"
  using DirectoryCreate_true [of b p s] by (auto simp: present_def)

lemma EnsurePathExists_loop_levels:
  "EnsurePathExists_loop b pathCopy slash s = (True, s') \<Longrightarrow>
     grown (platform b) (nodes s) (nodes s') \<and>
     (\<forall>j \<in> set (slashes_from (NATIVE_SLASH b) pathCopy slash).
        present (platform b) (nodes s') (take j pathCopy))"
proof (induction b pathCopy slash s arbitrary: s' rule: EnsurePathExists_loop.induct)
  case (1 b pathCopy slash s)
  let ?level = "take slash pathCopy"
  let ?pl = "platform b"
  obtain ex s1 where e: "DirectoryExists b ?level s = (ex, s1)"
    by (cases "DirectoryExists b ?level s")
  obtain created s2 where c: "(if ex then (True, s1) else DirectoryCreate b ?level s1) = (created, s2)"
    by (cases "if ex then (True, s1) else DirectoryCreate b ?level s1")
  have n1: "nodes s1 = nodes s" using DirectoryExists_nodes [of b ?level s] e by simp
  from "1.prems" e c have created: created
    by (subst (asm) EnsurePathExists_loop.simps) (auto split: if_splits)
  have g2: "grown ?pl (nodes s) (nodes s2)"
  proof (cases ex)
    case True
    with c n1 show ?thesis by (simp add: grown_refl)
  next
    case False
    with c DirectoryCreate_grown [of b s1 ?level] n1 show ?thesis by simp
  qed
  have p2: "present ?pl (nodes s2) ?level"
  proof (cases ex)
    case True
    with e DirectoryExists_present [of b ?level s] c n1 show ?thesis by simp
  next
    case False
    with c created DirectoryCreate_present [of b ?level s1] show ?thesis by simp
  qed
  show ?case
  proof (cases "Find (NATIVE_SLASH b) pathCopy (slash + 1)")
    case None
    with "1.prems" e c created have "s' = s2"
      by (subst (asm) EnsurePathExists_loop.simps) simp
    moreover from None have "slashes_from (NATIVE_SLASH b) pathCopy slash = [slash]"
      by (subst slashes_from.simps) simp
    ultimately show ?thesis using g2 p2 by simp
  next
    case (Some slash')
    with "1.prems" e c created have l: "EnsurePathExists_loop b pathCopy slash' s2 = (True, s')"
      by (subst (asm) EnsurePathExists_loop.simps) simp
    from "1.IH" [OF e [symmetric] refl c [symmetric] refl _ Some l] created
    have ih: "grown ?pl (nodes s2) (nodes s')"
      "\<forall>j \<in> set (slashes_from (NATIVE_SLASH b) pathCopy slash'). present ?pl (nodes s') (take j pathCopy)"
      by simp_all
    from ih(1) have "nodes s2 \<subseteq>\<^sub>m nodes s'" by (simp add: grown_def)
    with p2 have "present ?pl (nodes s') ?level" by (rule present_le)
    moreover from Some have "slashes_from (NATIVE_SLASH b) pathCopy slash
                               = slash # slashes_from (NATIVE_SLASH b) pathCopy slash'"
      by (subst slashes_from.simps) simp
    ultimately show ?thesis using ih grown_trans [OF g2 ih(1)] by simp
  qed
qed

lemma grown_node:
  "grown pl ns ns' \<Longrightarrow> node_at ns' k = Some i \<Longrightarrow> is_directory pl i \<or> node_at ns k = Some i"
  by (auto simp: grown_def node_at_def is_directory_new is_directory_def new_directory_def
      FILE_ATTRIBUTE_DIRECTORY_def S_IFDIR_def S_IFMT_def split: if_splits)

lemma EnsurePathExists_existing:
  "fst (DirectoryExists b path s) \<Longrightarrow>
     EnsurePathExists b path s = (Inr True, snd (DirectoryExists b path s))"
  by (simp add: EnsurePathExists_def split_beta)

lemma EnsurePathExists_loop_stops:
  "\<not> fst (DirectoryExists b (take slash pathCopy) s) \<Longrightarrow>
   \<not> fst (DirectoryCreate b (take slash pathCopy) (snd (DirectoryExists b (take slash pathCopy) s))) \<Longrightarrow>
   EnsurePathExists_loop b pathCopy slash s
     = (False, snd (DirectoryCreate b (take slash pathCopy) (snd (DirectoryExists b (take slash pathCopy) s))))"
  by (subst EnsurePathExists_loop.simps) (simp add: split_beta)

text \<open>
  When \<^verbatim>\<open>EnsurePathExists\<close> returns true: if the whole path was a directory
  already, the file system is as it was; otherwise the path has levels and, in the
  file system after the call, every level names a node that is a directory or was
  there before the call.
\<close>

theorem EnsurePathExists_levels:
  "EnsurePathExists b path s = (Inr True, s') \<Longrightarrow>
     (if fst (DirectoryExists b path s) then nodes s' = nodes s
      else levels b path \<noteq> [] \<and>
           (\<forall>l \<in> set (levels b path).
              \<exists>k i. resolve_new (platform b) (nodes s') l = Inr k \<and> node_at (nodes s') k = Some i \<and>
                    (is_directory (platform b) i \<or> node_at (nodes s) k = Some i)))"
proof (cases "fst (DirectoryExists b path s)")
  case True
  assume "EnsurePathExists b path s = (Inr True, s')"
  with True EnsurePathExists_existing [OF True] DirectoryExists_nodes [of b path s]
  show ?thesis by simp
next
  case False
  assume a: "EnsurePathExists b path s = (Inr True, s')"
  let ?pathCopy = "FixupFolderPath b path"
  let ?s1 = "snd (DirectoryExists b path s)"
  from a False obtain i slash where
    i: "first_level_start b ?pathCopy = Some i"
    and f: "Find (NATIVE_SLASH b) ?pathCopy i = Some slash"
    and l: "EnsurePathExists_loop b ?pathCopy slash ?s1 = (True, s')"
    by (auto simp: EnsurePathExists_def split_beta Let_def prod_eq_iff split: option.splits)
  from EnsurePathExists_loop_levels [OF l] DirectoryExists_nodes [of b path s]
  have g: "grown (platform b) (nodes s) (nodes s')"
    and p: "\<forall>j \<in> set (slashes_from (NATIVE_SLASH b) ?pathCopy slash).
              present (platform b) (nodes s') (take j ?pathCopy)"
    by simp_all
  have lv: "levels b path = map (\<lambda>j. take j ?pathCopy) (slashes_from (NATIVE_SLASH b) ?pathCopy slash)"
    using i f by (simp add: levels_def Let_def)
  have ne: "levels b path \<noteq> []"
    unfolding lv by (subst slashes_from.simps) simp
  have "\<exists>k i. resolve_new (platform b) (nodes s') l = Inr k \<and> node_at (nodes s') k = Some i \<and>
              (is_directory (platform b) i \<or> node_at (nodes s) k = Some i)"
    if "l \<in> set (levels b path)" for l
  proof -
    from that p have "present (platform b) (nodes s') l" unfolding lv by auto
    then obtain k i where k: "resolve_new (platform b) (nodes s') l = Inr k" "node_at (nodes s') k = Some i"
      by (auto simp: present_def split: sum.splits)
    with grown_node [OF g k(2)] show ?thesis by blast
  qed
  with False ne show ?thesis by simp
qed

theorem EnsurePathExists_levels_witness:
  "EnsurePathExists linux_release ''build/out/obj'' build_example
     = (Inr True, snd (EnsurePathExists linux_release ''build/out/obj'' build_example)) \<and>
   \<not> fst (DirectoryExists linux_release ''build/out/obj'' build_example) \<and>
   levels linux_release ''build/out/obj'' = [''build'', ''build/out'', ''build/out/obj''] \<and>
   (\<exists>k i. resolve_new Linux (nodes (snd (EnsurePathExists linux_release ''build/out/obj'' build_example)))
             ''build/out/obj'' = Inr k \<and>
          node_at (nodes (snd (EnsurePathExists linux_release ''build/out/obj'' build_example))) k = Some i \<and>
          (is_directory Linux i \<or> node_at (nodes build_example) k = Some i))"
proof -
  have r: "fst (EnsurePathExists linux_release ''build/out/obj'' build_example) = Inr True"
    by (simp add: EnsurePathExists_def first_level_start_def EnsurePathExists_loop.simps
        DirectoryExists_def DirectoryCreate_def build_example_def os_with_def empty_os_def
        linux_release_def slash_terminated_def c_at_def Find_def sys_defs Let_def
        S_IRWXU_def S_IRWXG_def S_IRWXO_def eval_path)
  then have e: "EnsurePathExists linux_release ''build/out/obj'' build_example
     = (Inr True, snd (EnsurePathExists linux_release ''build/out/obj'' build_example))"
    by (metis prod.collapse)
  have d: "\<not> fst (DirectoryExists linux_release ''build/out/obj'' build_example)"
    by (simp add: DirectoryExists_def build_example_def os_with_def empty_os_def
        linux_release_def sys_defs eval_path)
  have l: "levels linux_release ''build/out/obj'' = [''build'', ''build/out'', ''build/out/obj'']"
    by (simp add: levels_def first_level_start_def linux_release_def slash_terminated_def c_at_def
      Find_def slashes_from.simps)
  have p: "platform linux_release = Linux" by (simp add: linux_release_def)
  from EnsurePathExists_levels [OF e] d l p show ?thesis
    using e by simp
qed

text \<open>
  C2, evaluated where the code departs from it. \<^verbatim>\<open>build/out\<close> is a regular file.
  \<^verbatim>\<open>DirectoryExists\<close> is false for it, \<^verbatim>\<open>mkdir\<close> fails with \<^verbatim>\<open>EEXIST\<close>, which
  \<^verbatim>\<open>DirectoryCreate\<close> takes for a directory that exists already, and
  \<^verbatim>\<open>EnsurePathExists\<close> returns true: afterwards the last level of the path still is
  the regular file and not a directory.
\<close>

theorem EnsurePathExists_file_in_the_way:
  "fst (EnsurePathExists linux_release ''build/out'' occupied_example) = Inr True \<and>
   \<not> fst (DirectoryExists linux_release ''build/out''
            (snd (EnsurePathExists linux_release ''build/out'' occupied_example))) \<and>
   lookup Linux (nodes (snd (EnsurePathExists linux_release ''build/out'' occupied_example))) ''build/out''
     = Some (regular_file 3)"
  by (simp add: EnsurePathExists_def first_level_start_def EnsurePathExists_loop.simps
      DirectoryExists_def DirectoryCreate_def occupied_example_def os_with_def empty_os_def linux_release_def regular_file_def
      slash_terminated_def c_at_def Find_def sys_defs Let_def S_IFREG_def
      S_IRWXU_def S_IRWXG_def S_IRWXO_def eval_path)

end
